theory Spec2Isabelle
  imports Main
begin

section \<open>JavaScript values, errors and string primitives\<close>

text \<open>
  The module \<^verbatim>\<open>consume_github_api.js\<close> works on JSON data returned by the remote API.
  A value is modelled as the runtime has it after \<^verbatim>\<open>JSON.parse\<close>; \<open>JUndefined\<close> is what
  reading an absent property yields. An object is the list of its own entries, in the
  order of \<^verbatim>\<open>Object.entries\<close>. Numbers are the integers (identifiers, counters).
  Strings are lists of 8-bit code units.
\<close>

datatype jsval =
    JUndefined
  | JNull
  | JBool bool
  | JNum int
  | JStr string
  | JArr "jsval list"
  | JObj "(string \<times> jsval) list"

text \<open>
  What the module can throw or be rejected with: \<^verbatim>\<open>new Error(msg)\<close>, a \<^verbatim>\<open>TypeError\<close>
  (thrown by the module or by the runtime), and the errors of the HTTP client, which carry
  the status of the response when there was one (\<^verbatim>\<open>error.response?.status\<close>) and a
  message.
\<close>

datatype js_error =
    Error string
  | TypeError string
  | AxiosError "nat option" string

fun response_status :: "js_error \<Rightarrow> nat option" where
  "response_status (AxiosError st _) = st"
| "response_status _ = None"

fun typeof :: "jsval \<Rightarrow> string" where
  "typeof JUndefined = ''undefined''"
| "typeof JNull = ''object''"
| "typeof (JBool _) = ''boolean''"
| "typeof (JNum _) = ''number''"
| "typeof (JStr _) = ''string''"
| "typeof (JArr _) = ''object''"
| "typeof (JObj _) = ''object''"

text \<open>\<^verbatim>\<open>!value\<close> is true exactly for the falsy values.\<close>

fun truthy :: "jsval \<Rightarrow> bool" where
  "truthy JUndefined = False"
| "truthy JNull = False"
| "truthy (JBool b) = b"
| "truthy (JNum n) = (n \<noteq> 0)"
| "truthy (JStr s) = (s \<noteq> [])"
| "truthy (JArr _) = True"
| "truthy (JObj _) = True"

text \<open>Reading a property of a record: \<^verbatim>\<open>obj.key\<close> on the entries of an object.\<close>

definition get_prop :: "(string \<times> jsval) list \<Rightarrow> string \<Rightarrow> jsval" where
  "get_prop obj k = (case map_of obj k of None \<Rightarrow> JUndefined | Some v \<Rightarrow> v)"

subsection \<open>Decimal numerals\<close>

definition digit_char :: "nat \<Rightarrow> char" where
  "digit_char n = char_of (48 + n)"

fun show_nat :: "nat \<Rightarrow> string" where
  "show_nat n = (if n < 10 then [digit_char n] else show_nat (n div 10) @ [digit_char (n mod 10)])"

declare show_nat.simps [simp del]

definition show_int :: "int \<Rightarrow> string" where
  "show_int i = (if i < 0 then CHR ''-'' # show_nat (nat (- i)) else show_nat (nat i))"

text \<open>\<^verbatim>\<open>s.padStart(n, "0")\<close>\<close>

definition padStart :: "nat \<Rightarrow> string \<Rightarrow> string" where
  "padStart n s = replicate (n - length s) CHR ''0'' @ s"

subsection \<open>String conversion\<close>

fun join_with :: "string \<Rightarrow> string list \<Rightarrow> string" where
  "join_with sep [] = []"
| "join_with sep [x] = x"
| "join_with sep (x # y # ys) = x @ sep @ join_with sep (y # ys)"

text \<open>
  The conversion of a value to a string, as a template literal and \<^verbatim>\<open>new Date\<close> apply it.
  It calls the \<^verbatim>\<open>toString\<close> method of an object. A record that has an entry
  \<^verbatim>\<open>toString\<close> of its own hides the inherited method behind a value that is not a
  function (the data is JSON), and the conversion throws a \<^verbatim>\<open>TypeError\<close>; an entry
  \<^verbatim>\<open>valueOf\<close> does no harm. An array converts its elements in turn, so it throws when
  one of them does. \<open>convertible\<close> holds of the values whose conversion does not throw,
  and \<open>string_of\<close> is the string it then gives: a number is written in decimal (as the
  runtime writes the integers below ten to the power 21), an array joins its elements
  with commas (null and undefined elements give the empty string), a record gives
  \<^verbatim>\<open>[object Object]\<close>.
\<close>

fun convertible :: "jsval \<Rightarrow> bool" where
  "convertible (JArr xs) = list_all convertible xs"
| "convertible (JObj obj) = (map_of obj ''toString'' = None)"
| "convertible _ = True"

fun string_of :: "jsval \<Rightarrow> string" where
  "string_of JUndefined = ''undefined''"
| "string_of JNull = ''null''"
| "string_of (JBool b) = (if b then ''true'' else ''false'')"
| "string_of (JNum n) = show_int n"
| "string_of (JStr s) = s"
| "string_of (JArr xs) =
     join_with '','' (map (\<lambda>x. if x = JNull \<or> x = JUndefined then [] else string_of x) xs)"
| "string_of (JObj _) = ''[object Object]''"

definition not_primitive :: js_error where
  "not_primitive = TypeError ''Cannot convert object to primitive value''"

definition ToString :: "jsval \<Rightarrow> js_error + string" where
  "ToString v = (if convertible v then Inr (string_of v) else Inl not_primitive)"

subsection \<open>split, trim, startsWith, replace\<close>

text \<open>\<^verbatim>\<open>s.split(c)\<close> for a one-character separator: never the empty list.\<close>

fun str_split :: "char \<Rightarrow> string \<Rightarrow> string list" where
  "str_split c [] = [[]]"
| "str_split c (x # xs) =
     (if x = c then [] # str_split c xs
      else (case str_split c xs of
              [] \<Rightarrow> [[x]]
            | p # ps \<Rightarrow> (x # p) # ps))"

text \<open>White space that \<^verbatim>\<open>trim\<close> strips, among 8-bit code units.\<close>

definition is_space :: "char \<Rightarrow> bool" where
  "is_space c = (c \<in> {CHR 0x09, CHR 0x0A, CHR 0x0B, CHR 0x0C, CHR 0x0D, CHR 0x20, CHR 0xA0})"

definition trim :: "string \<Rightarrow> string" where
  "trim s = rev (dropWhile is_space (rev (dropWhile is_space s)))"

definition startsWith :: "string \<Rightarrow> string \<Rightarrow> bool" where
  "startsWith s p = (take (length p) s = p)"

text \<open>The dot of a regular expression matches every code unit but a line terminator.\<close>

definition is_dot :: "char \<Rightarrow> bool" where
  "is_dot c = (c \<noteq> CHR 0x0A \<and> c \<noteq> CHR 0x0D)"

text \<open>
  \<open>split_last c xs\<close>: the text before and after the last \<open>c\<close> of \<open>xs\<close>: where a greedy
  \<^verbatim>\<open>(.*)\<close> followed by \<open>c\<close> ends.
\<close>

fun split_last :: "char \<Rightarrow> string \<Rightarrow> (string \<times> string) option" where
  "split_last c [] = None"
| "split_last c (x # xs) =
     (case split_last c xs of
        Some (a, b) \<Rightarrow> Some (x # a, b)
      | None \<Rightarrow> if x = c then Some ([], xs) else None)"

text \<open>
  \<open>greedy_group c s\<close>: \<^verbatim>\<open>(.*)\<close> followed by \<open>c\<close>, matched at the start of \<open>s\<close>: the group and
  the text after the match, if there is a match.
\<close>

definition greedy_group :: "char \<Rightarrow> string \<Rightarrow> (string \<times> string) option" where
  "greedy_group c s =
     (case split_last c (takeWhile is_dot s) of
        None \<Rightarrow> None
      | Some (g, after) \<Rightarrow> Some (g, after @ dropWhile is_dot s))"

text \<open>\<^verbatim>\<open>s.replace(/<(.*)>/, "$1")\<close>: the leftmost match is replaced by its group.\<close>

fun replace_angle :: "string \<Rightarrow> string" where
  "replace_angle [] = []"
| "replace_angle (c # cs) =
     (if c = CHR ''<'' then
        (case greedy_group CHR ''>'' cs of
           Some (g, rest) \<Rightarrow> g @ rest
         | None \<Rightarrow> c # replace_angle cs)
      else c # replace_angle cs)"

text \<open>\<^verbatim>\<open>s.replace(/rel="(.*)"/, "$1")\<close>\<close>

definition rel_open :: string where
  "rel_open = ''rel='' @ [CHR 0x22]"

fun replace_rel :: "string \<Rightarrow> string" where
  "replace_rel [] = []"
| "replace_rel (c # cs) =
     (if startsWith (c # cs) rel_open then
        (case greedy_group (CHR 0x22) (drop (length rel_open) (c # cs)) of
           Some (g, rest) \<Rightarrow> g @ rest
         | None \<Rightarrow> c # replace_rel cs)
      else c # replace_rel cs)"

section \<open>The pagination cursor: parseLinkHeader\<close>

text \<open>
  \<^verbatim>\<open>const [url, rel] = part.split(";")\<close> takes the first two pieces; \<open>rel\<close> is undefined when
  the part has no semicolon, and \<^verbatim>\<open>rel.replace\<close> then throws a \<^verbatim>\<open>TypeError\<close>, which ends
  the \<^verbatim>\<open>forEach\<close> and the call. An assignment to the key \<^verbatim>\<open>__proto__\<close> of an object literal
  with a string value leaves the object as it is.
\<close>

definition undefined_replace :: js_error where
  "undefined_replace = TypeError ''Cannot read properties of undefined (reading 'replace')''"

definition set_link :: "(string \<rightharpoonup> string) \<Rightarrow> string \<Rightarrow> string \<Rightarrow> (string \<rightharpoonup> string)" where
  "set_link links k v = (if k = ''__proto__'' then links else links(k \<mapsto> v))"

fun parse_parts :: "(string \<rightharpoonup> string) \<Rightarrow> string list \<Rightarrow> js_error + (string \<rightharpoonup> string)" where
  "parse_parts links [] = Inr links"
| "parse_parts links (part # parts) =
     (case str_split CHR '';'' part of
        url # rel # _ \<Rightarrow>
          (let cleanedUrl = trim (replace_angle url);
               cleanedRel = trim (replace_rel rel)
           in parse_parts (set_link links cleanedRel cleanedUrl) parts)
      | _ \<Rightarrow> Inl undefined_replace)"

definition parseLinkHeader :: "string \<Rightarrow> js_error + (string \<rightharpoonup> string)" where
  "parseLinkHeader header = parse_parts Map.empty (str_split CHR '','' header)"

section \<open>Time values and calendar fields\<close>

text \<open>
  A \<^verbatim>\<open>Date\<close> holds a time value, milliseconds since the epoch in UTC, or \<^verbatim>\<open>NaN\<close>
  (\<open>None\<close>). The calendar functions are those of the language definition: \<open>Day\<close>,
  \<open>DayFromYear\<close>, \<open>YearFromTime\<close>, \<open>MonthFromTime\<close>, \<open>DateFromTime\<close>, \<open>MakeDay\<close>,
  \<open>TimeClip\<close>.
\<close>

definition msPerDay :: int where
  "msPerDay = 86400000"

definition Day :: "int \<Rightarrow> int" where
  "Day t = t div msPerDay"

definition TimeWithinDay :: "int \<Rightarrow> int" where
  "TimeWithinDay t = t mod msPerDay"

definition isLeap :: "int \<Rightarrow> bool" where
  "isLeap y = (y mod 4 = 0 \<and> (y mod 100 \<noteq> 0 \<or> y mod 400 = 0))"

definition DayFromYear :: "int \<Rightarrow> int" where
  "DayFromYear y = 365 * (y - 1970) + (y - 1969) div 4 - (y - 1901) div 100 + (y - 1601) div 400"

text \<open>
  The year of a day number: the largest \<open>y\<close> with \<open>DayFromYear y \<le> d\<close>, computed from an
  estimate that is off by one at most (lemma \<open>YearFromDay_bounds\<close>).
\<close>

definition YearFromDay :: "int \<Rightarrow> int" where
  "YearFromDay d =
     (let y = 1970 + (400 * d) div 146097
      in if DayFromYear (y + 1) \<le> d then y + 1
         else if d < DayFromYear y then y - 1
         else y)"

definition YearFromTime :: "int \<Rightarrow> int" where
  "YearFromTime t = YearFromDay (Day t)"

definition DayWithinYear :: "int \<Rightarrow> int" where
  "DayWithinYear t = Day t - DayFromYear (YearFromTime t)"

definition InLeapYear :: "int \<Rightarrow> int" where
  "InLeapYear t = (if isLeap (YearFromTime t) then 1 else 0)"

text \<open>The number of days before month \<open>m\<close> (0 is January) in a year.\<close>

definition monthStart :: "int \<Rightarrow> int \<Rightarrow> int" where
  "monthStart leap m =
     (if m = 0 then 0 else if m = 1 then 31 else if m = 2 then 59 + leap
      else if m = 3 then 90 + leap else if m = 4 then 120 + leap
      else if m = 5 then 151 + leap else if m = 6 then 181 + leap
      else if m = 7 then 212 + leap else if m = 8 then 243 + leap
      else if m = 9 then 273 + leap else if m = 10 then 304 + leap
      else if m = 11 then 334 + leap else 365 + leap)"

definition MonthOfDay :: "int \<Rightarrow> int \<Rightarrow> int" where
  "MonthOfDay leap d =
     (if d < 31 then 0 else if d < 59 + leap then 1 else if d < 90 + leap then 2
      else if d < 120 + leap then 3 else if d < 151 + leap then 4
      else if d < 181 + leap then 5 else if d < 212 + leap then 6
      else if d < 243 + leap then 7 else if d < 273 + leap then 8
      else if d < 304 + leap then 9 else if d < 334 + leap then 10
      else 11)"

definition MonthFromTime :: "int \<Rightarrow> int" where
  "MonthFromTime t = MonthOfDay (InLeapYear t) (DayWithinYear t)"

definition DateFromTime :: "int \<Rightarrow> int" where
  "DateFromTime t = DayWithinYear t + 1 - monthStart (InLeapYear t) (MonthFromTime t)"

definition HourFromTime :: "int \<Rightarrow> int" where
  "HourFromTime t = (t div 3600000) mod 24"

definition MinFromTime :: "int \<Rightarrow> int" where
  "MinFromTime t = (t div 60000) mod 60"

definition SecFromTime :: "int \<Rightarrow> int" where
  "SecFromTime t = (t div 1000) mod 60"

definition msFromTime :: "int \<Rightarrow> int" where
  "msFromTime t = t mod 1000"

text \<open>\<open>MakeDay\<close> for a month in \<open>0..11\<close>; \<open>MakeTime\<close>; \<open>MakeDate\<close>.\<close>

definition MakeDay :: "int \<Rightarrow> int \<Rightarrow> int \<Rightarrow> int" where
  "MakeDay y m d = DayFromYear y + monthStart (if isLeap y then 1 else 0) m + d - 1"

definition MakeTime :: "int \<Rightarrow> int \<Rightarrow> int \<Rightarrow> int \<Rightarrow> int" where
  "MakeTime h m s ms = h * 3600000 + m * 60000 + s * 1000 + ms"

definition MakeDate :: "int \<Rightarrow> int \<Rightarrow> int" where
  "MakeDate day time = day * msPerDay + time"

definition TimeClip :: "int \<Rightarrow> int option" where
  "TimeClip t = (if \<bar>t\<bar> > 8640000000000000 then None else Some t)"

definition DaysInMonth :: "int \<Rightarrow> int \<Rightarrow> int" where
  "DaysInMonth y m =
     (let leap = (if isLeap y then 1 else 0) in monthStart leap m - monthStart leap (m - 1))"

subsection \<open>Parsing date strings\<close>

definition is_digit :: "char \<Rightarrow> bool" where
  "is_digit c = (c \<in> set ''0123456789'')"

definition digit_val :: "char \<Rightarrow> int" where
  "digit_val c = int (of_char c) - 48"

definition num_of :: "string \<Rightarrow> int" where
  "num_of s = foldl (\<lambda>a c. 10 * a + digit_val c) 0 s"

text \<open>The regular expression \<^verbatim>\<open>/^\d{4}-\d{2}-\d{2}$/\<close> of \<^verbatim>\<open>validateDateStrings\<close>.\<close>

definition date_regex :: "string \<Rightarrow> bool" where
  "date_regex s =
     (length s = 10 \<and> list_all is_digit (take 4 s) \<and> s ! 4 = CHR ''-''
      \<and> list_all is_digit (take 2 (drop 5 s)) \<and> s ! 7 = CHR ''-''
      \<and> list_all is_digit (drop 8 s))"

text \<open>
  \<^verbatim>\<open>Date.parse\<close> on the two forms of the language's date-time format that the module
  meets: a date alone, \<^verbatim>\<open>YYYY-MM-DD\<close>, is midnight UTC of that day; the remote API's
  timestamps, \<^verbatim>\<open>YYYY-MM-DDTHH:mm:ssZ\<close>, are UTC too. Both need a day that exists in the
  calendar.
\<close>

definition parse_iso_date :: "string \<Rightarrow> int option" where
  "parse_iso_date s =
     (if date_regex s then
        (let y = num_of (take 4 s); m = num_of (take 2 (drop 5 s)); d = num_of (drop 8 s)
         in if 1 \<le> m \<and> m \<le> 12 \<and> 1 \<le> d \<and> d \<le> DaysInMonth y m
            then Some (MakeDate (MakeDay y (m - 1) d) 0)
            else None)
      else None)"

definition time_regex :: "string \<Rightarrow> bool" where
  "time_regex s =
     (length s = 10 \<and> s ! 0 = CHR ''T'' \<and> list_all is_digit (take 2 (drop 1 s))
      \<and> s ! 3 = CHR '':'' \<and> list_all is_digit (take 2 (drop 4 s)) \<and> s ! 6 = CHR '':''
      \<and> list_all is_digit (take 2 (drop 7 s)) \<and> s ! 9 = CHR ''Z'')"

definition parse_iso_datetime :: "string \<Rightarrow> int option" where
  "parse_iso_datetime s =
     (if length s = 20 \<and> time_regex (drop 10 s) then
        (case parse_iso_date (take 10 s) of
           None \<Rightarrow> None
         | Some day \<Rightarrow>
             (let h = num_of (take 2 (drop 11 s)); m = num_of (take 2 (drop 14 s));
                  sec = num_of (take 2 (drop 17 s))
              in if h \<le> 23 \<and> m \<le> 59 \<and> sec \<le> 59 then Some (day + MakeTime h m sec 0)
                 else None))
      else None)"

text \<open>
  On every other string the result of \<^verbatim>\<open>Date.parse\<close> is left to the runtime (the other
  forms of the format, and the fallback that the language leaves to the implementation,
  which for instance may roll \<^verbatim>\<open>2024-02-30\<close> forward or reject it): the parameter
  \<open>P\<close>, with \<open>None\<close> for \<^verbatim>\<open>NaN\<close>.
\<close>

definition Date_parse :: "(string \<Rightarrow> int option) \<Rightarrow> string \<Rightarrow> int option" where
  "Date_parse P s =
     (case parse_iso_date s of
        Some t \<Rightarrow> Some t
      | None \<Rightarrow> (case parse_iso_datetime s of Some t \<Rightarrow> Some t | None \<Rightarrow> P s))"

text \<open>
  \<^verbatim>\<open>new Date(v)\<close>: the time value of the new object. A string is parsed
  (\<open>newDate_string\<close>), which never throws; a record or an array is first converted to a
  string, which may throw.
\<close>

definition newDate_string :: "(string \<Rightarrow> int option) \<Rightarrow> string \<Rightarrow> int option" where
  "newDate_string P s = Option.bind (Date_parse P s) TimeClip"

fun newDate :: "(string \<Rightarrow> int option) \<Rightarrow> jsval \<Rightarrow> js_error + int option" where
  "newDate P (JStr s) = Inr (newDate_string P s)"
| "newDate P (JNum n) = Inr (TimeClip n)"
| "newDate P (JBool b) = Inr (Some (if b then 1 else 0))"
| "newDate P JNull = Inr (Some 0)"
| "newDate P JUndefined = Inr None"
| "newDate P v =
     (case ToString v of
        Inl e \<Rightarrow> Inl e
      | Inr s \<Rightarrow> Inr (newDate_string P s))"

text \<open>
  The local time zone is a constant offset \<open>tz\<close> from UTC, in milliseconds
  (local time is \<open>t + tz\<close>). \<^verbatim>\<open>date.setHours(h, m, s, ms)\<close> keeps the local day of the
  date and replaces the time within it.
\<close>

definition setHours :: "int \<Rightarrow> int option \<Rightarrow> int \<Rightarrow> int \<Rightarrow> int \<Rightarrow> int \<Rightarrow> int option" where
  "setHours tz date h m s ms =
     (case date of
        None \<Rightarrow> None
      | Some t \<Rightarrow> TimeClip (MakeDate (Day (t + tz)) (MakeTime h m s ms) - tz))"

text \<open>
  \<^verbatim>\<open>date.toISOString()\<close> of a valid date: years outside \<open>0..9999\<close> are written with a sign
  and six digits.
\<close>

definition pad :: "nat \<Rightarrow> int \<Rightarrow> string" where
  "pad n i = padStart n (show_int i)"

definition toISOString :: "int \<Rightarrow> string" where
  "toISOString t =
     (let y = YearFromTime t;
          year = (if 0 \<le> y \<and> y \<le> 9999 then pad 4 y
                  else (if y < 0 then ''-'' else ''+'') @ pad 6 \<bar>y\<bar>)
      in year @ ''-'' @ pad 2 (MonthFromTime t + 1) @ ''-'' @ pad 2 (DateFromTime t)
         @ ''T'' @ pad 2 (HourFromTime t) @ '':'' @ pad 2 (MinFromTime t)
         @ '':'' @ pad 2 (SecFromTime t) @ ''.'' @ pad 3 (msFromTime t) @ ''Z'')"

section \<open>The date-range filter\<close>

definition parseDate :: "(string \<Rightarrow> int option) \<Rightarrow> int \<Rightarrow> string \<Rightarrow> bool \<Rightarrow> int option" where
  "parseDate P tz dateString isEndDate =
     (let date = newDate_string P dateString
      in if isEndDate then setHours tz date 23 59 59 999 else setHours tz date 0 0 0 0)"

text \<open>Comparing two dates: false as soon as one of them is \<^verbatim>\<open>NaN\<close>.\<close>

fun date_le :: "int option \<Rightarrow> int option \<Rightarrow> bool" where
  "date_le (Some a) (Some b) = (a \<le> b)"
| "date_le _ _ = False"

fun date_less :: "int option \<Rightarrow> int option \<Rightarrow> bool" where
  "date_less (Some a) (Some b) = (a < b)"
| "date_less _ _ = False"

definition isDateInRange ::
  "(string \<Rightarrow> int option) \<Rightarrow> int option \<Rightarrow> int option \<Rightarrow> jsval \<Rightarrow> js_error + bool" where
  "isDateInRange P start end dateString =
     (if \<not> truthy dateString then Inr False
      else (case newDate P dateString of
              Inl e \<Rightarrow> Inl e
            | Inr date \<Rightarrow> Inr (date_le start date \<and> date_le date end)))"

text \<open>
  Reading one of the timestamp properties of an element of the array: a \<^verbatim>\<open>TypeError\<close>
  on \<^verbatim>\<open>null\<close> and \<^verbatim>\<open>undefined\<close>, \<^verbatim>\<open>undefined\<close> on the other values that are not records.
\<close>

definition null_read :: "string \<Rightarrow> js_error" where
  "null_read k = TypeError (''Cannot read properties of null (reading ''
     @ [CHR 0x27] @ k @ [CHR 0x27] @ '')'')"

definition undefined_read :: "string \<Rightarrow> js_error" where
  "undefined_read k = TypeError (''Cannot read properties of undefined (reading ''
     @ [CHR 0x27] @ k @ [CHR 0x27] @ '')'')"

fun read_field :: "jsval \<Rightarrow> string \<Rightarrow> js_error + jsval" where
  "read_field (JObj obj) k = Inr (get_prop obj k)"
| "read_field JNull k = Inl (null_read k)"
| "read_field JUndefined k = Inl (undefined_read k)"
| "read_field _ k = Inr JUndefined"

text \<open>The callback of \<^verbatim>\<open>pulls.filter\<close>; \<^verbatim>\<open>||\<close> evaluates its right operand only when needed.\<close>

definition pull_in_range ::
  "(string \<Rightarrow> int option) \<Rightarrow> int option \<Rightarrow> int option \<Rightarrow> jsval \<Rightarrow> js_error + bool" where
  "pull_in_range P start end pull =
     (case read_field pull ''created_at'' of Inl e \<Rightarrow> Inl e | Inr c \<Rightarrow>
      case isDateInRange P start end c of Inl e \<Rightarrow> Inl e | Inr True \<Rightarrow> Inr True | Inr False \<Rightarrow>
      (case read_field pull ''updated_at'' of Inl e \<Rightarrow> Inl e | Inr u \<Rightarrow>
       case isDateInRange P start end u of Inl e \<Rightarrow> Inl e | Inr True \<Rightarrow> Inr True | Inr False \<Rightarrow>
       (case read_field pull ''merged_at'' of Inl e \<Rightarrow> Inl e | Inr m \<Rightarrow>
        case isDateInRange P start end m of Inl e \<Rightarrow> Inl e | Inr True \<Rightarrow> Inr True | Inr False \<Rightarrow>
        (case read_field pull ''closed_at'' of Inl e \<Rightarrow> Inl e | Inr cl \<Rightarrow>
         isDateInRange P start end cl))))"

text \<open>\<^verbatim>\<open>xs.filter(f)\<close> and \<^verbatim>\<open>xs.map(f)\<close> with a callback that may throw.\<close>

fun array_filter :: "('a \<Rightarrow> js_error + bool) \<Rightarrow> 'a list \<Rightarrow> js_error + 'a list" where
  "array_filter f [] = Inr []"
| "array_filter f (x # xs) =
     (case f x of
        Inl e \<Rightarrow> Inl e
      | Inr b \<Rightarrow> (case array_filter f xs of
                    Inl e \<Rightarrow> Inl e
                  | Inr r \<Rightarrow> Inr (if b then x # r else r)))"

fun array_map :: "('a \<Rightarrow> js_error + 'b) \<Rightarrow> 'a list \<Rightarrow> js_error + 'b list" where
  "array_map f [] = Inr []"
| "array_map f (x # xs) =
     (case f x of
        Inl e \<Rightarrow> Inl e
      | Inr y \<Rightarrow> (case array_map f xs of
                    Inl e \<Rightarrow> Inl e
                  | Inr r \<Rightarrow> Inr (y # r)))"

definition filterPullRequestsByDateRange ::
  "(string \<Rightarrow> int option) \<Rightarrow> int \<Rightarrow> jsval list \<Rightarrow> string \<Rightarrow> string \<Rightarrow> js_error + jsval list" where
  "filterPullRequestsByDateRange P tz pulls startDate endDate =
     (let start = parseDate P tz startDate False;
          end = parseDate P tz endDate True
      in array_filter (pull_in_range P start end) pulls)"

section \<open>The field projector\<close>

text \<open>
  \<^verbatim>\<open>formatDate\<close> reads the calendar fields in local time; on an invalid date every field is
  \<^verbatim>\<open>NaN\<close>. It throws what \<^verbatim>\<open>new Date\<close> throws.
\<close>

definition formatDate :: "(string \<Rightarrow> int option) \<Rightarrow> int \<Rightarrow> jsval \<Rightarrow> js_error + string" where
  "formatDate P tz dateString =
     (case newDate P dateString of
        Inl e \<Rightarrow> Inl e
      | Inr None \<Rightarrow> Inr ''NaN-NaN-NaN''
      | Inr (Some t) \<Rightarrow>
          (let year = YearFromTime (t + tz);
               month = padStart 2 (show_int (MonthFromTime (t + tz) + 1));
               day = padStart 2 (show_int (DateFromTime (t + tz)))
           in Inr (show_int year @ ''-'' @ month @ ''-'' @ day)))"

text \<open>\<^verbatim>\<open>value.login\<close> where \<^verbatim>\<open>typeof value === "object"\<close>: \<^verbatim>\<open>null\<close> is such a value.\<close>

definition date_keys :: "string list" where
  "date_keys = [''created_at'', ''updated_at'', ''closed_at'', ''merged_at'']"

definition format_entry ::
  "(string \<Rightarrow> int option) \<Rightarrow> int \<Rightarrow> string list \<Rightarrow> string \<times> jsval
     \<Rightarrow> js_error + (string \<times> jsval) option" where
  "format_entry P tz keysToKeep entry =
     (case entry of (key, value) \<Rightarrow>
        if key \<in> set keysToKeep then
          (if key = ''user'' \<and> typeof value = ''object'' then
             (case read_field value ''login'' of
                Inl e \<Rightarrow> Inl e
              | Inr login \<Rightarrow> Inr (Some (key, login)))
           else if key \<in> set date_keys then
             (case formatDate P tz value of
                Inl e \<Rightarrow> Inl e
              | Inr date \<Rightarrow> Inr (Some (key, JStr date)))
           else Inr (Some (key, value)))
        else Inr None)"

text \<open>
  \<^verbatim>\<open>Object.fromEntries\<close>: a later entry replaces the value of an earlier one with the same
  key, in its place. (The whitelisted keys are not array indices, which an object would
  list first.)
\<close>

fun set_entry :: "string \<Rightarrow> jsval \<Rightarrow> (string \<times> jsval) list \<Rightarrow> (string \<times> jsval) list" where
  "set_entry k v [] = [(k, v)]"
| "set_entry k v (p # ps) = (if fst p = k then (k, v) # ps else p # set_entry k v ps)"

definition fromEntries :: "(string \<times> jsval) list \<Rightarrow> (string \<times> jsval) list" where
  "fromEntries es = foldl (\<lambda>obj (k, v). set_entry k v obj) [] es"

definition formatObjectByKey ::
  "(string \<Rightarrow> int option) \<Rightarrow> int \<Rightarrow> (string \<times> jsval) list \<Rightarrow> string list
     \<Rightarrow> js_error + (string \<times> jsval) list" where
  "formatObjectByKey P tz obj keysToKeep =
     (case array_map (format_entry P tz keysToKeep) obj of
        Inl e \<Rightarrow> Inl e
      | Inr entries \<Rightarrow> Inr (fromEntries (map the (filter (\<lambda>entry. entry \<noteq> None) entries))))"

text \<open>
  \<^verbatim>\<open>Object.entries(v)\<close>: the entries of a record; the indexed elements of an array or a
  string; nothing for a number or a boolean; a \<^verbatim>\<open>TypeError\<close> for \<^verbatim>\<open>null\<close> and
  \<^verbatim>\<open>undefined\<close>.
\<close>

definition indexed :: "jsval list \<Rightarrow> (string \<times> jsval) list" where
  "indexed xs = map (\<lambda>(i, x). (show_nat i, x)) (zip [0 ..< length xs] xs)"

definition not_an_object :: js_error where
  "not_an_object = TypeError ''Cannot convert undefined or null to object''"

fun Object_entries :: "jsval \<Rightarrow> js_error + (string \<times> jsval) list" where
  "Object_entries (JObj obj) = Inr obj"
| "Object_entries (JArr xs) = Inr (indexed xs)"
| "Object_entries (JStr s) = Inr (indexed (map (\<lambda>c. JStr [c]) s))"
| "Object_entries JNull = Inl not_an_object"
| "Object_entries JUndefined = Inl not_an_object"
| "Object_entries _ = Inr []"

section \<open>The validator\<close>

definition validateStringNotEmpty :: "jsval \<Rightarrow> js_error + unit" where
  "validateStringNotEmpty v =
     (if typeof v \<noteq> ''string'' then
        Inl (TypeError (''Expected a string but received: '' @ typeof v))
      else if \<not> truthy v \<or> length (trim (string_of v)) = 0 then
        Inl (Error ''Expected a non-empty string but recieved an empty string'')
      else Inr ())"

definition isValidDate :: "(string \<Rightarrow> int option) \<Rightarrow> string \<Rightarrow> bool" where
  "isValidDate P dateString =
     (if \<not> date_regex dateString then False
      else (case newDate_string P dateString of
              None \<Rightarrow> False
            | Some timestamp \<Rightarrow> startsWith (toISOString timestamp) dateString))"

definition validateDateStrings ::
  "(string \<Rightarrow> int option) \<Rightarrow> string \<Rightarrow> string \<Rightarrow> js_error + unit" where
  "validateDateStrings P startDate endDate =
     (if \<not> isValidDate P startDate then Inl (Error (''Invalid start date: '' @ startDate))
      else if \<not> isValidDate P endDate then Inl (Error (''Invalid end date: '' @ endDate))
      else (let start = newDate_string P startDate; end = newDate_string P endDate
            in if date_less end start then
                 Inl (Error (''End date '' @ endDate @ '' cannot be before start date ''
                             @ startDate))
               else Inr ()))"

section \<open>The HTTP gateway and the existence checks\<close>

text \<open>
  The remote API is the environment: what a \<^verbatim>\<open>HEAD\<close> request to a URL settles with (the
  status of the response, or the error the client rejects with), and what the \<open>i\<close>-th
  \<^verbatim>\<open>GET\<close> request of an aggregation settles with (the records of the page and its
  \<^verbatim>\<open>link\<close> header, or an error). Every operation returns the requests it has issued
  next to its outcome.
\<close>

datatype request = Head string | Get string

record response =
  data :: "jsval list"
  headers_link :: "string option"

record env =
  axios_head :: "string \<Rightarrow> js_error + nat"
  axios_get :: "nat \<Rightarrow> string \<Rightarrow> js_error + response"

definition BASE_API_URL :: string where
  "BASE_API_URL = ''https://api.github.com''"

definition getHeaders :: "env \<Rightarrow> string \<Rightarrow> (js_error + nat) \<times> request list" where
  "getHeaders E url = (axios_head E url, [Head url])"

definition getPullsData :: "env \<Rightarrow> nat \<Rightarrow> string \<Rightarrow> (js_error + response) \<times> request list" where
  "getPullsData E i url = (axios_get E i url, [Get url])"

text \<open>
  The two checks write their identifiers into the URL with a template literal, which
  converts them to strings, the owner first; a conversion that throws rejects the check
  before any request. The message of the not-found error converts them again, to the
  same strings.
\<close>

definition verifyOwnerExists :: "env \<Rightarrow> jsval \<Rightarrow> (js_error + bool) \<times> request list" where
  "verifyOwnerExists E owner =
     (case validateStringNotEmpty owner of
        Inl e \<Rightarrow> (Inl e, [])
      | Inr _ \<Rightarrow>
          (case ToString owner of
             Inl e \<Rightarrow> (Inl e, [])
           | Inr owner_str \<Rightarrow>
               (let url = BASE_API_URL @ ''/users/'' @ owner_str
                in (case getHeaders E url of
                      (Inr status, reqs) \<Rightarrow> (Inr (status = 200), reqs)
                    | (Inl error, reqs) \<Rightarrow>
                        if response_status error = Some 404 then
                          (Inl (Error (''repository owner '' @ owner_str @ '' not found'')), reqs)
                        else (Inl error, reqs)))))"

definition verifyRepoExists :: "env \<Rightarrow> jsval \<Rightarrow> jsval \<Rightarrow> (js_error + bool) \<times> request list" where
  "verifyRepoExists E repo owner =
     (case validateStringNotEmpty repo of
        Inl e \<Rightarrow> (Inl e, [])
      | Inr _ \<Rightarrow>
          (case ToString owner of
             Inl e \<Rightarrow> (Inl e, [])
           | Inr owner_str \<Rightarrow>
          (case ToString repo of
             Inl e \<Rightarrow> (Inl e, [])
           | Inr repo_str \<Rightarrow>
               (let url = BASE_API_URL @ ''/repos/'' @ owner_str @ ''/'' @ repo_str
                in (case getHeaders E url of
                      (Inr status, reqs) \<Rightarrow> (Inr (status = 200), reqs)
                    | (Inl error, reqs) \<Rightarrow>
                        if response_status error = Some 404 then
                          (Inl (Error (''repository '' @ repo_str @ '' for owner ''
                                       @ owner_str @ '' not found'')), reqs)
                        else (Inl error, reqs))))))"

section \<open>The page aggregator\<close>

text \<open>
  Lines 107 to 114: the next URL after a response. \<^verbatim>\<open>if (linkHeader)\<close> skips an absent or
  empty header; \<^verbatim>\<open>links.next || null\<close> turns an absent or empty next URL into \<^verbatim>\<open>null\<close>.
\<close>

definition next_page :: "response \<Rightarrow> js_error + string option" where
  "next_page r =
     (case headers_link r of
        None \<Rightarrow> Inr None
      | Some linkHeader \<Rightarrow>
          if linkHeader = [] then Inr None
          else (case parseLinkHeader linkHeader of
                  Inl e \<Rightarrow> Inl e
                | Inr links \<Rightarrow>
                    (case links ''next'' of
                       None \<Rightarrow> Inr None
                     | Some u \<Rightarrow> if u = [] then Inr None else Inr (Some u))))"

text \<open>
  The \<^verbatim>\<open>while (nextPageUrl)\<close> loop, which need not end: the result is \<open>None\<close> when it
  runs forever. \<open>i\<close> counts the requests issued so far.
\<close>

partial_function (option) pages_loop ::
  "env \<Rightarrow> nat \<Rightarrow> string option \<Rightarrow> jsval list \<Rightarrow> request list
     \<Rightarrow> ((js_error + jsval list) \<times> request list) option" where
  "pages_loop E i nextPageUrl allPullRequests reqs =
     (case nextPageUrl of
        None \<Rightarrow> Some (Inr allPullRequests, reqs)
      | Some url \<Rightarrow>
          if url = [] then Some (Inr allPullRequests, reqs)
          else (case getPullsData E i url of
                  (Inl e, rq) \<Rightarrow> Some (Inl e, reqs @ rq)
                | (Inr response, rq) \<Rightarrow>
                    (case next_page response of
                       Inl e \<Rightarrow> Some (Inl e, reqs @ rq)
                     | Inr nxt \<Rightarrow>
                         pages_loop E (Suc i) nxt (allPullRequests @ data response)
                           (reqs @ rq))))"

declare pages_loop.simps [code]

text \<open>
  The URL of the first page is built before the \<^verbatim>\<open>try\<close> block, from the owner and then the
  repository name; the function is \<^verbatim>\<open>async\<close>, so a conversion that throws rejects its
  promise.
\<close>

definition getAllPullRequests ::
  "env \<Rightarrow> jsval \<Rightarrow> jsval \<Rightarrow> ((js_error + jsval list) \<times> request list) option" where
  "getAllPullRequests E repo owner =
     (case ToString owner of
        Inl e \<Rightarrow> Some (Inl e, [])
      | Inr owner_str \<Rightarrow>
     (case ToString repo of
        Inl e \<Rightarrow> Some (Inl e, [])
      | Inr repo_str \<Rightarrow>
          pages_loop E 0
            (Some (BASE_API_URL @ ''/repos/'' @ owner_str @ ''/'' @ repo_str @ ''/pulls''))
            [] []))"

section \<open>The orchestrator\<close>

definition keysToKeep :: "string list" where
  "keysToKeep = [''id'', ''user'', ''title'', ''state'', ''created_at'']"

definition format_item ::
  "(string \<Rightarrow> int option) \<Rightarrow> int \<Rightarrow> jsval \<Rightarrow> js_error + (string \<times> jsval) list" where
  "format_item P tz item =
     (case Object_entries item of
        Inl e \<Rightarrow> Inl e
      | Inr obj \<Rightarrow> formatObjectByKey P tz obj keysToKeep)"

text \<open>
  \<^verbatim>\<open>Promise.allSettled\<close> waits for the three operations; the \<^verbatim>\<open>forEach\<close> then throws the
  reason of the first rejected one, in the order of the array.
\<close>

definition first_rejected ::
  "js_error + bool \<Rightarrow> js_error + bool \<Rightarrow> js_error + jsval list \<Rightarrow> js_error + jsval list" where
  "first_rejected ownerExists repoExists allPullRequests =
     (case ownerExists of
        Inl reason \<Rightarrow> Inl reason
      | Inr _ \<Rightarrow>
          (case repoExists of
             Inl reason \<Rightarrow> Inl reason
           | Inr _ \<Rightarrow> allPullRequests))"

definition getPullRequests ::
  "(string \<Rightarrow> int option) \<Rightarrow> int \<Rightarrow> env \<Rightarrow> jsval \<Rightarrow> jsval \<Rightarrow> string \<Rightarrow> string
     \<Rightarrow> ((js_error + (string \<times> jsval) list list) \<times> request list) option" where
  "getPullRequests P tz E owner repo startDate endDate =
     (case validateDateStrings P startDate endDate of
        Inl e \<Rightarrow> Some (Inl e, [])
      | Inr _ \<Rightarrow>
          (case verifyOwnerExists E owner of (ownerExists, reqs1) \<Rightarrow>
           case verifyRepoExists E repo owner of (repoExists, reqs2) \<Rightarrow>
           case getAllPullRequests E repo owner of
             None \<Rightarrow> None
           | Some (allPullRequests, reqs3) \<Rightarrow>
               Some (case first_rejected ownerExists repoExists allPullRequests of
                       Inl reason \<Rightarrow> Inl reason
                     | Inr pulls \<Rightarrow>
                         (case filterPullRequestsByDateRange P tz pulls startDate endDate of
                            Inl e \<Rightarrow> Inl e
                          | Inr filteredPullRequests \<Rightarrow>
                              array_map (format_item P tz) filteredPullRequests),
                     reqs1 @ reqs2 @ reqs3)))"

section \<open>Notions used in the statements\<close>

text \<open>
  The two pieces that \<^verbatim>\<open>parseLinkHeader\<close> takes from a segment with a semicolon: the text
  before its first semicolon, and the text between its first and its second semicolon.
  \<open>add_segment\<close> is the entry such a segment adds.
\<close>

definition url_portion :: "string \<Rightarrow> string" where
  "url_portion part = takeWhile (\<lambda>x. x \<noteq> CHR '';'') part"

definition rel_portion :: "string \<Rightarrow> string" where
  "rel_portion part =
     takeWhile (\<lambda>x. x \<noteq> CHR '';'') (tl (dropWhile (\<lambda>x. x \<noteq> CHR '';'') part))"

definition add_segment :: "(string \<rightharpoonup> string) \<Rightarrow> string \<Rightarrow> (string \<rightharpoonup> string)" where
  "add_segment links part =
     set_link links (trim (replace_rel (rel_portion part)))
       (trim (replace_angle (url_portion part)))"



text \<open>
  The identifiers that \<^verbatim>\<open>validateStringNotEmpty\<close> lets through, and the three endpoints.
\<close>

definition nonEmptyString :: "jsval \<Rightarrow> bool" where
  "nonEmptyString v = (case v of JStr s \<Rightarrow> trim s \<noteq> [] | _ \<Rightarrow> False)"

definition users_url :: "jsval \<Rightarrow> string" where
  "users_url owner = BASE_API_URL @ ''/users/'' @ string_of owner"

definition repos_url :: "jsval \<Rightarrow> jsval \<Rightarrow> string" where
  "repos_url owner repo = BASE_API_URL @ ''/repos/'' @ string_of owner @ ''/'' @ string_of repo"

definition pulls_url :: "jsval \<Rightarrow> jsval \<Rightarrow> string" where
  "pulls_url owner repo = repos_url owner repo @ ''/pulls''"

definition owner_not_found :: "jsval \<Rightarrow> js_error" where
  "owner_not_found owner = Error (''repository owner '' @ string_of owner @ '' not found'')"

definition repo_not_found :: "jsval \<Rightarrow> jsval \<Rightarrow> js_error" where
  "repo_not_found owner repo =
     Error (''repository '' @ string_of repo @ '' for owner '' @ string_of owner @ '' not found'')"

text \<open>
  Lines 242 to 253: what the call makes of the outcome of the aggregation once the two
  existence checks have succeeded.
\<close>

definition settle ::
  "(string \<Rightarrow> int option) \<Rightarrow> int \<Rightarrow> string \<Rightarrow> string \<Rightarrow> js_error + jsval list
     \<Rightarrow> js_error + (string \<times> jsval) list list" where
  "settle P tz startDate endDate allPullRequests =
     (case allPullRequests of
        Inl reason \<Rightarrow> Inl reason
      | Inr pulls \<Rightarrow>
          (case filterPullRequestsByDateRange P tz pulls startDate endDate of
             Inl e \<Rightarrow> Inl e
           | Inr filteredPullRequests \<Rightarrow> array_map (format_item P tz) filteredPullRequests))"



text \<open>
  A record of the array; a record whose four timestamps can be converted to a primitive
  value (a string, a number, a boolean, \<^verbatim>\<open>null\<close>, an absent one, or a structure without
  an entry \<^verbatim>\<open>toString\<close>); a record with a timestamp in the range; and a timestamp value
  that is absent, null or a string that does not parse.
\<close>

definition is_record :: "jsval \<Rightarrow> bool" where
  "is_record p = (case p of JObj _ \<Rightarrow> True | _ \<Rightarrow> False)"


definition plain_created :: "jsval \<Rightarrow> bool" where
  "plain_created p =
     (case p of
        JObj obj \<Rightarrow> list_all (\<lambda>(k, v). k = ''created_at'' \<longrightarrow> convertible v) obj
      | _ \<Rightarrow> True)"



text \<open>
  The fields of a string that matches the pattern of \<^verbatim>\<open>validateDateStrings\<close>, the strings
  that name a day of the calendar, the number of that day, and the round trip that
  \<^verbatim>\<open>isValidDate\<close> makes through \<^verbatim>\<open>new Date\<close> and \<^verbatim>\<open>toISOString\<close>.
\<close>

definition year_of :: "string \<Rightarrow> int" where
  "year_of s = num_of (take 4 s)"

definition month_of :: "string \<Rightarrow> int" where
  "month_of s = num_of (take 2 (drop 5 s))"

definition day_of :: "string \<Rightarrow> int" where
  "day_of s = num_of (drop 8 s)"

definition is_calendar_date :: "string \<Rightarrow> bool" where
  "is_calendar_date s =
     (date_regex s \<and> 1 \<le> month_of s \<and> month_of s \<le> 12 \<and> 1 \<le> day_of s
      \<and> day_of s \<le> DaysInMonth (year_of s) (month_of s))"

definition day_number :: "string \<Rightarrow> int" where
  "day_number s = MakeDay (year_of s) (month_of s - 1) (day_of s)"

definition round_trips :: "(string \<Rightarrow> int option) \<Rightarrow> string \<Rightarrow> bool" where
  "round_trips P s =
     (case newDate_string P s of
        None \<Rightarrow> False
      | Some t \<Rightarrow> startsWith (toISOString t) s)"

text \<open>
  The value that the projection gives to a whitelisted key of a record: the login of the
  author for \<^verbatim>\<open>user\<close>, what \<^verbatim>\<open>formatDate\<close> returns for \<^verbatim>\<open>created_at\<close>, the value itself
  otherwise; and the projection of the entries of a record, entry by entry.
\<close>

definition project_value :: "(string \<Rightarrow> int option) \<Rightarrow> int \<Rightarrow> string \<Rightarrow> jsval \<Rightarrow> jsval" where
  "project_value P tz k v =
     (if k = ''user'' then
        (case v of JObj u \<Rightarrow> get_prop u ''login'' | JArr _ \<Rightarrow> JUndefined | _ \<Rightarrow> v)
      else if k = ''created_at'' then JStr (projr (formatDate P tz v))
      else v)"

definition project_record ::
  "(string \<Rightarrow> int option) \<Rightarrow> int \<Rightarrow> (string \<times> jsval) list \<Rightarrow> (string \<times> jsval) list" where
  "project_record P tz obj =
     map (\<lambda>(k, v). (k, project_value P tz k v)) (filter (\<lambda>(k, v). k \<in> set keysToKeep) obj)"

section \<open>Example data\<close>

text \<open>
  Two pull requests on two pages, as the remote API serves them, a remote API that
  knows neither the owner nor the repository, a runtime whose \<^verbatim>\<open>Date.parse\<close> rolls
  the thirtieth of February 2024 forward to the first of March, and a runtime whose
  \<^verbatim>\<open>Date.parse\<close> rejects every string outside the two forms above.
\<close>

definition quoted :: "string \<Rightarrow> string" where
  "quoted s = CHR 0x22 # s @ [CHR 0x22]"

definition pr_2011 :: jsval where
  "pr_2011 = JObj [(''id'', JNum 1), (''number'', JNum 1347),
     (''user'', JObj [(''login'', JStr ''octocat''), (''id'', JNum 583231)]),
     (''title'', JStr ''Amazing new feature''), (''state'', JStr ''open''),
     (''created_at'', JStr ''2011-01-26T19:01:12Z''),
     (''updated_at'', JStr ''2011-01-26T19:01:12Z''),
     (''closed_at'', JNull), (''merged_at'', JNull)]"

definition pr_2012 :: jsval where
  "pr_2012 = JObj [(''id'', JNum 2), (''number'', JNum 1348),
     (''user'', JObj [(''login'', JStr ''hubot''), (''id'', JNum 2)]),
     (''title'', JStr ''Fix typo''), (''state'', JStr ''closed''),
     (''created_at'', JStr ''2012-01-01T10:00:00Z''),
     (''updated_at'', JStr ''2012-01-02T08:30:00Z''),
     (''closed_at'', JStr ''2012-01-02T08:30:00Z''), (''merged_at'', JNull)]"

definition page2_url :: string where
  "page2_url = ''https://api.github.com/repositories/1296269/pulls?page=2''"

definition page_one :: response where
  "page_one = \<lparr>data = [pr_2011],
     headers_link = Some (''<'' @ page2_url @ ''>; rel='' @ quoted ''next'' @ '', <''
                          @ page2_url @ ''>; rel='' @ quoted ''last'')\<rparr>"

definition page_two :: response where
  "page_two = \<lparr>data = [pr_2012],
     headers_link = Some (''<https://api.github.com/repositories/1296269/pulls?page=1>; rel=''
                          @ quoted ''first'')\<rparr>"

definition not_found :: js_error where
  "not_found = AxiosError (Some 404) ''Request failed with status code 404''"

definition network_error :: js_error where
  "network_error = AxiosError None ''getaddrinfo ENOTFOUND api.github.com''"

definition env_ok :: env where
  "env_ok = \<lparr>axios_head = (\<lambda>url. Inr 200),
             axios_get = (\<lambda>i url. if i = 0 then Inr page_one
                                   else if url = page2_url then Inr page_two
                                   else Inl network_error)\<rparr>"

definition env_missing :: env where
  "env_missing = \<lparr>axios_head = (\<lambda>url. Inl not_found), axios_get = (\<lambda>i url. Inl not_found)\<rparr>"



definition pr_ghost :: jsval where
  "pr_ghost = JObj [(''id'', JNum 3), (''user'', JNull), (''title'', JStr ''Orphan''),
     (''state'', JStr ''closed''), (''created_at'', JStr ''2011-03-01T09:00:00Z'')]"

definition env_ghost :: env where
  "env_ghost = \<lparr>axios_head = (\<lambda>url. Inr 200),
     axios_get = (\<lambda>i url. Inr \<lparr>data = [pr_2011, pr_ghost], headers_link = None\<rparr>)\<rparr>"

definition pr_odd :: jsval where
  "pr_odd = JObj [(''id'', JNum 5), (''created_at'', JObj [(''toString'', JNum 1)])]"

definition pr_stale :: jsval where
  "pr_stale = JObj [(''id'', JNum 6), (''user'', JObj [(''login'', JStr ''octocat'')]),
     (''title'', JStr ''Stale''), (''state'', JStr ''open''),
     (''created_at'', JStr ''yesterday''),
     (''updated_at'', JStr ''2011-06-01T10:00:00Z'')]"

definition pr_march :: jsval where
  "pr_march = JObj [(''id'', JNum 4), (''user'', JObj [(''login'', JStr ''octocat'')]),
     (''title'', JStr ''Spring cleaning''), (''state'', JStr ''open''),
     (''created_at'', JStr ''2024-03-10T15:00:00Z''),
     (''updated_at'', JStr ''2024-03-10T15:00:00Z''),
     (''closed_at'', JNull), (''merged_at'', JNull)]"

definition rolling_parse :: "string \<Rightarrow> int option" where
  "rolling_parse s = (if s = ''2024-02-30'' then Some 1709251200000 else None)"

definition strict_parse :: "string \<Rightarrow> int option" where
  "strict_parse s = None"

section \<open>Properties of the pagination cursor\<close>

lemma str_split_not_Nil: "str_split c s \<noteq> []"
  by (induction s) (auto split: list.splits)

lemma str_split_absent: "c \<notin> set s \<Longrightarrow> str_split c s = [s]"
  by (induction s) (auto split: list.splits)

lemma str_split_present:
  "c \<in> set s \<Longrightarrow>
   str_split c s = takeWhile (\<lambda>x. x \<noteq> c) s # str_split c (tl (dropWhile (\<lambda>x. x \<noteq> c) s))"
proof (induction s)
  case Nil
  then show ?case by simp
next
  case (Cons x xs)
  show ?case
  proof (cases "x = c")
    case True
    then show ?thesis by simp
  next
    case False
    with Cons.prems have "c \<in> set xs" by simp
    from Cons.IH [OF this] False show ?thesis by simp
  qed
qed

lemma str_split_hd: "hd (str_split c s) = takeWhile (\<lambda>x. x \<noteq> c) s"
  by (induction s) (auto split: list.splits simp: str_split_not_Nil)

lemma parse_step_ok:
  assumes "CHR '';'' \<in> set part"
  shows "parse_parts links (part # parts) = parse_parts (add_segment links part) parts"
proof -
  let ?rest = "tl (dropWhile (\<lambda>x. x \<noteq> CHR '';'') part)"
  have s1: "str_split CHR '';'' part = url_portion part # str_split CHR '';'' ?rest"
    using assms by (simp add: str_split_present url_portion_def)
  obtain r rs where s2: "str_split CHR '';'' ?rest = r # rs"
    using str_split_not_Nil [of "CHR '';''" ?rest] by (cases "str_split CHR '';'' ?rest") auto
  have "r = rel_portion part"
    using str_split_hd [of "CHR '';''" ?rest] s2 by (simp add: rel_portion_def)
  with s1 s2 show ?thesis by (simp add: add_segment_def Let_def)
qed

lemma parse_step_bad:
  assumes "CHR '';'' \<notin> set part"
  shows "parse_parts links (part # parts) = Inl undefined_replace"
  using assms by (simp add: str_split_absent)

lemma parse_parts_all:
  "parse_parts links parts =
     (if \<forall>part \<in> set parts. CHR '';'' \<in> set part then Inr (foldl add_segment links parts)
      else Inl undefined_replace)"
proof (induction parts arbitrary: links)
  case Nil
  then show ?case by simp
next
  case (Cons part parts)
  show ?case
  proof (cases "CHR '';'' \<in> set part")
    case True
    then show ?thesis using Cons.IH [of "add_segment links part"]
      by (simp only: parse_step_ok [OF True]) simp
  next
    case False
    then show ?thesis by (simp only: parse_step_bad [OF False]) auto
  qed
qed

lemmas string_eval =
  url_portion_def rel_portion_def add_segment_def set_link_def trim_def is_space_def
  greedy_group_def is_dot_def startsWith_def rel_open_def

text \<open>
  C6, as the code has it. \<^verbatim>\<open>parseLinkHeader\<close> returns a mapping exactly when every
  comma-separated segment of the header contains a semicolon; the mapping then holds
  one entry for each segment, its key the trimmed relation portion without the
  \<^verbatim>\<open>rel="..."\<close> quoting (so a segment with no \<^verbatim>\<open>rel=\<close> gives an entry under the text
  after its semicolon) and its value the trimmed URL portion without the angle brackets.
  A segment with no semicolon makes the call throw a \<^verbatim>\<open>TypeError\<close>.
\<close>

theorem parseLinkHeader_segments:
  "parseLinkHeader header =
     (if \<forall>part \<in> set (str_split CHR '','' header). CHR '';'' \<in> set part
      then Inr (foldl add_segment Map.empty (str_split CHR '','' header))
      else Inl undefined_replace)"
  unfolding parseLinkHeader_def by (rule parse_parts_all)

theorem parseLinkHeader_segments_witness:
  "parseLinkHeader ''<https://x/p?page=2>; next, <https://x/p?page=9>; rel=last'' =
     Inr [''next'' \<mapsto> ''https://x/p?page=2'', ''rel=last'' \<mapsto> ''https://x/p?page=9'']"
  using parseLinkHeader_segments [of "''<https://x/p?page=2>; next, <https://x/p?page=9>; rel=last''"]
  by (simp add: string_eval)

text \<open>
  C6, as the specification states it, fails on a header whose only segment has no
  semicolon: the parse is aborted by a \<^verbatim>\<open>TypeError\<close>.
\<close>

theorem parseLinkHeader_no_semicolon:
  "parseLinkHeader ''<https://api.github.com/repositories/1/pulls?page=2>'' =
     Inl undefined_replace"
  by (simp add: parseLinkHeader_def)

section \<open>Properties of the validator and the existence checks\<close>

lemma validateStringNotEmpty_ok: "validateStringNotEmpty v = Inr () \<longleftrightarrow> nonEmptyString v"
  by (cases v) (auto simp: validateStringNotEmpty_def nonEmptyString_def trim_def)

lemma validateStringNotEmpty_kinds:
  "validateStringNotEmpty v =
     (case v of
        JStr s \<Rightarrow>
          if trim s = [] then
            Inl (Error ''Expected a non-empty string but recieved an empty string'')
          else Inr ()
      | _ \<Rightarrow> Inl (TypeError (''Expected a string but received: '' @ typeof v)))"
  by (cases v) (auto simp: validateStringNotEmpty_def trim_def)

lemma invalid_cases: "\<not> nonEmptyString v \<Longrightarrow> \<exists>e. validateStringNotEmpty v = Inl e"
  using validateStringNotEmpty_ok [of v] by (cases "validateStringNotEmpty v") auto

lemma ToString_convertible: "convertible v \<Longrightarrow> ToString v = Inr (string_of v)"
  by (simp add: ToString_def)

lemma ToString_throws: "\<not> convertible v \<Longrightarrow> ToString v = Inl not_primitive"
  by (simp add: ToString_def)

lemma nonEmptyString_convertible: "nonEmptyString v \<Longrightarrow> convertible v"
  by (cases v) (simp_all add: nonEmptyString_def)

lemma verifyOwnerExists_invalid:
  "validateStringNotEmpty owner = Inl e \<Longrightarrow> verifyOwnerExists E owner = (Inl e, [])"
  by (simp add: verifyOwnerExists_def)

lemma verifyOwnerExists_valid:
  "nonEmptyString owner \<Longrightarrow>
   verifyOwnerExists E owner =
     (case axios_head E (users_url owner) of
        Inr status \<Rightarrow> Inr (status = 200)
      | Inl error \<Rightarrow>
          if response_status error = Some 404 then Inl (owner_not_found owner) else Inl error,
      [Head (users_url owner)])"
  by (simp add: verifyOwnerExists_def validateStringNotEmpty_ok [symmetric] getHeaders_def
      users_url_def owner_not_found_def ToString_convertible nonEmptyString_convertible
      split: sum.splits)

lemma verifyRepoExists_invalid:
  "validateStringNotEmpty repo = Inl e \<Longrightarrow> verifyRepoExists E repo owner = (Inl e, [])"
  by (simp add: verifyRepoExists_def)

lemma verifyRepoExists_throws:
  "nonEmptyString repo \<Longrightarrow> \<not> convertible owner \<Longrightarrow>
   verifyRepoExists E repo owner = (Inl not_primitive, [])"
  by (simp add: verifyRepoExists_def validateStringNotEmpty_ok [symmetric] ToString_throws)

lemma verifyRepoExists_valid:
  "nonEmptyString repo \<Longrightarrow> convertible owner \<Longrightarrow>
   verifyRepoExists E repo owner =
     (case axios_head E (repos_url owner repo) of
        Inr status \<Rightarrow> Inr (status = 200)
      | Inl error \<Rightarrow>
          if response_status error = Some 404 then Inl (repo_not_found owner repo)
          else Inl error,
      [Head (repos_url owner repo)])"
  by (simp add: verifyRepoExists_def validateStringNotEmpty_ok [symmetric] getHeaders_def
      repos_url_def repo_not_found_def ToString_convertible nonEmptyString_convertible
      split: sum.splits)

lemmas example_eval =
  env_ok_def env_missing_def not_found_def network_error_def page_one_def page_two_def
  page2_url_def quoted_def users_url_def repos_url_def pulls_url_def BASE_API_URL_def
  owner_not_found_def repo_not_found_def nonEmptyString_def

text \<open>
  C8, as the code has it. \<^verbatim>\<open>verifyOwnerExists\<close> first validates the owner and
  \<^verbatim>\<open>verifyRepoExists\<close> first validates the repository name, and only that one: an
  identifier that is not a non-empty string is rejected with the validator's error and no
  request is issued. Otherwise one \<^verbatim>\<open>HEAD\<close> request is issued: a response settles the
  check with whether its status is 200; a rejection whose response has status 404 becomes
  the owner-not-found error (naming the owner) or the repository-not-found error (naming
  both); any other rejection is thrown again as it is. The one exception is an owner
  that \<^verbatim>\<open>verifyRepoExists\<close> cannot write into the URL, a structure with an entry
  \<^verbatim>\<open>toString\<close>: the check then fails with the \<^verbatim>\<open>TypeError\<close> of the conversion and issues
  no request.
\<close>

theorem existence_checks:
  "(\<not> nonEmptyString owner \<longrightarrow>
      (\<exists>e. validateStringNotEmpty owner = Inl e \<and> verifyOwnerExists E owner = (Inl e, [])))
   \<and> (nonEmptyString owner \<longrightarrow>
      (\<forall>status. axios_head E (users_url owner) = Inr status \<longrightarrow>
         verifyOwnerExists E owner = (Inr (status = 200), [Head (users_url owner)]))
      \<and> (\<forall>error. axios_head E (users_url owner) = Inl error
             \<and> response_status error = Some 404 \<longrightarrow>
         verifyOwnerExists E owner = (Inl (owner_not_found owner), [Head (users_url owner)]))
      \<and> (\<forall>error. axios_head E (users_url owner) = Inl error
             \<and> response_status error \<noteq> Some 404 \<longrightarrow>
         verifyOwnerExists E owner = (Inl error, [Head (users_url owner)])))
   \<and> (\<not> nonEmptyString repo \<longrightarrow>
      (\<exists>e. validateStringNotEmpty repo = Inl e \<and> verifyRepoExists E repo owner = (Inl e, [])))
   \<and> (nonEmptyString repo \<and> convertible owner \<longrightarrow>
      (\<forall>status. axios_head E (repos_url owner repo) = Inr status \<longrightarrow>
         verifyRepoExists E repo owner = (Inr (status = 200), [Head (repos_url owner repo)]))
      \<and> (\<forall>error. axios_head E (repos_url owner repo) = Inl error
             \<and> response_status error = Some 404 \<longrightarrow>
         verifyRepoExists E repo owner =
           (Inl (repo_not_found owner repo), [Head (repos_url owner repo)]))
      \<and> (\<forall>error. axios_head E (repos_url owner repo) = Inl error
             \<and> response_status error \<noteq> Some 404 \<longrightarrow>
         verifyRepoExists E repo owner = (Inl error, [Head (repos_url owner repo)])))
   \<and> (nonEmptyString repo \<and> \<not> convertible owner \<longrightarrow>
      verifyRepoExists E repo owner = (Inl not_primitive, []))"
proof (intro conjI impI allI)
  assume "\<not> nonEmptyString owner"
  then obtain e where "validateStringNotEmpty owner = Inl e" using invalid_cases by blast
  then show "\<exists>e. validateStringNotEmpty owner = Inl e \<and> verifyOwnerExists E owner = (Inl e, [])"
    by (auto simp: verifyOwnerExists_invalid)
next
  assume "\<not> nonEmptyString repo"
  then obtain e where "validateStringNotEmpty repo = Inl e" using invalid_cases by blast
  then show "\<exists>e. validateStringNotEmpty repo = Inl e \<and> verifyRepoExists E repo owner = (Inl e, [])"
    by (auto simp: verifyRepoExists_invalid)
qed (simp_all add: verifyOwnerExists_valid verifyRepoExists_valid verifyRepoExists_throws)

theorem existence_checks_witness:
  "verifyOwnerExists env_ok (JStr ''octocat'') =
     (Inr True, [Head ''https://api.github.com/users/octocat''])
   \<and> verifyRepoExists env_missing (JStr ''Hello-World'') (JStr ''octocat'') =
       (Inl (Error ''repository Hello-World for owner octocat not found''),
        [Head ''https://api.github.com/repos/octocat/Hello-World''])"
  using existence_checks [of "JStr ''octocat''" env_ok "JStr ''Hello-World''"]
    existence_checks [of "JStr ''octocat''" env_missing "JStr ''Hello-World''"]
  by (simp add: example_eval trim_def is_space_def)

text \<open>
  C8, as the specification states it, has \<^verbatim>\<open>verifyRepoExists\<close> validate both of its
  identifiers. With an empty owner it validates nothing but the repository name, issues
  the request and succeeds.
\<close>

theorem verifyRepoExists_empty_owner:
  "verifyRepoExists env_ok (JStr ''Hello-World'') (JStr '''') =
     (Inr True, [Head ''https://api.github.com/repos//Hello-World''])"
  by (simp add: verifyRepoExists_def validateStringNotEmpty_def trim_def is_space_def
      getHeaders_def ToString_def example_eval)

section \<open>Properties of the orchestrator\<close>

lemma getPullRequests_invalid_dates:
  "validateDateStrings P s e = Inl err \<Longrightarrow>
   getPullRequests P tz E owner repo s e = Some (Inl err, [])"
  by (simp add: getPullRequests_def)

lemma getPullRequests_valid:
  assumes "validateDateStrings P s e = Inr ()"
  shows "getPullRequests P tz E owner repo s e =
     (case getAllPullRequests E repo owner of
        None \<Rightarrow> None
      | Some (aggregated, reqs3) \<Rightarrow>
          Some (case fst (verifyOwnerExists E owner) of
                  Inl reason \<Rightarrow> Inl reason
                | Inr _ \<Rightarrow>
                    (case fst (verifyRepoExists E repo owner) of
                       Inl reason \<Rightarrow> Inl reason
                     | Inr _ \<Rightarrow> settle P tz s e aggregated),
                snd (verifyOwnerExists E owner) @ snd (verifyRepoExists E repo owner) @ reqs3))"
proof -
  obtain o1 r1 where a: "verifyOwnerExists E owner = (o1, r1)"
    by (cases "verifyOwnerExists E owner")
  obtain o2 r2 where b: "verifyRepoExists E repo owner = (o2, r2)"
    by (cases "verifyRepoExists E repo owner")
  show ?thesis
  proof (cases "getAllPullRequests E repo owner")
    case None
    with assms a b show ?thesis by (simp add: getPullRequests_def)
  next
    case (Some res)
    obtain o3 r3 where c: "res = (o3, r3)" by (cases res)
    with Some assms a b show ?thesis
      by (cases o1; cases o2; cases o3)
         (simp_all add: getPullRequests_def first_rejected_def settle_def)
  qed
qed

text \<open>The requests of the loop are never taken back, and the first page is always asked for.\<close>

lemma pages_loop_extends:
  assumes "pages_loop E i nxt acc reqs = Some res"
  shows "\<exists>more. snd res = reqs @ more"
proof (rule pages_loop.raw_induct
    [where P = "\<lambda>E i nxt acc reqs res. \<exists>more. snd res = reqs @ more", OF _ assms], goal_cases)
  case (1 loop E i nextPageUrl allPullRequests reqs res)
  note IH = 1(1) and eq = 1(2)
  show ?case
  proof (cases nextPageUrl)
    case None
    with eq show ?thesis by auto
  next
    case (Some url)
    show ?thesis
    proof (cases "url = []")
      case True
      with Some eq show ?thesis by auto
    next
      case False
      show ?thesis
      proof (cases "axios_get E i url")
        case (Inl e)
        with Some False eq show ?thesis by (auto simp: getPullsData_def)
      next
        case (Inr response)
        show ?thesis
        proof (cases "next_page response")
          case (Inl e)
          with Some False Inr eq show ?thesis by (auto simp: getPullsData_def)
        next
          case nx: (Inr nxt)
          with Some False Inr eq
          have "loop E (Suc i) nxt (allPullRequests @ data response) (reqs @ [Get url]) = Some res"
            by (simp add: getPullsData_def)
          from IH [OF this] obtain more where "snd res = (reqs @ [Get url]) @ more" by blast
          then show ?thesis by simp
        qed
      qed
    qed
  qed
qed

text \<open>
  The aggregation builds its first URL from the two identifiers, the owner first; when
  one of them cannot be converted it fails there, before any request.
\<close>

lemma getAllPullRequests_pulls_url:
  "convertible owner \<Longrightarrow> convertible repo \<Longrightarrow>
   getAllPullRequests E repo owner = pages_loop E 0 (Some (pulls_url owner repo)) [] []"
  by (simp add: getAllPullRequests_def ToString_convertible pulls_url_def repos_url_def)

lemma getAllPullRequests_throws:
  "\<not> (convertible owner \<and> convertible repo) \<Longrightarrow>
   getAllPullRequests E repo owner = Some (Inl not_primitive, [])"
  by (auto simp: getAllPullRequests_def ToString_def)

lemma getAllPullRequests_first_request:
  assumes "getAllPullRequests E repo owner = Some (aggregated, reqs3)"
    and "convertible owner" and "convertible repo"
  shows "\<exists>more. reqs3 = Get (pulls_url owner repo) # more"
proof -
  let ?u = "pulls_url owner repo"
  have ne: "?u \<noteq> []" by (simp add: pulls_url_def repos_url_def BASE_API_URL_def)
  from assms have run: "pages_loop E 0 (Some ?u) [] [] = Some (aggregated, reqs3)"
    by (simp add: getAllPullRequests_pulls_url)
  show ?thesis
  proof (cases "axios_get E 0 ?u")
    case (Inl e)
    with run ne show ?thesis by (subst (asm) pages_loop.simps) (auto simp: getPullsData_def)
  next
    case (Inr response)
    show ?thesis
    proof (cases "next_page response")
      case (Inl e)
      with run ne Inr show ?thesis
        by (subst (asm) pages_loop.simps) (auto simp: getPullsData_def)
    next
      case nx: (Inr nxt)
      with run ne Inr
      have "pages_loop E (Suc 0) nxt ([] @ data response) ([] @ [Get ?u]) = Some (aggregated, reqs3)"
        by (subst (asm) pages_loop.simps) (auto simp: getPullsData_def)
      from pages_loop_extends [OF this] show ?thesis by simp
    qed
  qed
qed

lemma validate_2011: "validateDateStrings strict_parse ''2011-01-01'' ''2011-12-31'' = Inr ()"
  by code_simp

lemma aggregate_missing:
  "getAllPullRequests env_missing (JStr ''Hello-World'') (JStr ''octocat'') =
     Some (Inl not_found, [Get ''https://api.github.com/repos/octocat/Hello-World/pulls''])"
  by (simp add: getAllPullRequests_def pages_loop.simps getPullsData_def env_missing_def
      BASE_API_URL_def ToString_def)

text \<open>
  C3. Once the dates are valid the call settles exactly when the aggregation does, with
  the requests of all three operations issued whatever their outcomes; the error thrown
  is the reason of the first rejected operation in the order owner check, repository
  check, aggregation. In particular a not-found owner gives the owner-not-found error,
  whatever the repository check and the aggregation settle with.
\<close>

theorem all_settled_first_failure:
  assumes "validateDateStrings P s e = Inr ()"
  shows
   "(getAllPullRequests E repo owner = None \<longrightarrow> getPullRequests P tz E owner repo s e = None)
    \<and> (\<forall>aggregated reqs3. getAllPullRequests E repo owner = Some (aggregated, reqs3) \<longrightarrow>
         (\<exists>outcome.
            getPullRequests P tz E owner repo s e =
              Some (outcome, snd (verifyOwnerExists E owner)
                             @ snd (verifyRepoExists E repo owner) @ reqs3)
            \<and> (\<forall>r. fst (verifyOwnerExists E owner) = Inl r \<longrightarrow> outcome = Inl r)
            \<and> (\<forall>b r. fst (verifyOwnerExists E owner) = Inr b
                     \<and> fst (verifyRepoExists E repo owner) = Inl r \<longrightarrow> outcome = Inl r)
            \<and> (\<forall>b b' r. fst (verifyOwnerExists E owner) = Inr b
                     \<and> fst (verifyRepoExists E repo owner) = Inr b'
                     \<and> aggregated = Inl r \<longrightarrow> outcome = Inl r)
            \<and> (\<forall>error. nonEmptyString owner \<and> axios_head E (users_url owner) = Inl error
                     \<and> response_status error = Some 404 \<longrightarrow>
                 outcome = Inl (owner_not_found owner))))"
  by (auto simp: getPullRequests_valid [OF assms] settle_def verifyOwnerExists_valid)

theorem all_settled_first_failure_witness:
  "getPullRequests strict_parse 0 env_missing (JStr ''octocat'') (JStr ''Hello-World'')
     ''2011-01-01'' ''2011-12-31'' =
     Some (Inl (Error ''repository owner octocat not found''),
           [Head ''https://api.github.com/users/octocat'',
            Head ''https://api.github.com/repos/octocat/Hello-World'',
            Get ''https://api.github.com/repos/octocat/Hello-World/pulls''])"
proof -
  have o: "verifyOwnerExists env_missing (JStr ''octocat'') =
      (Inl (Error ''repository owner octocat not found''),
       [Head ''https://api.github.com/users/octocat''])"
    by (simp add: verifyOwnerExists_valid example_eval trim_def is_space_def)
  have r: "snd (verifyRepoExists env_missing (JStr ''Hello-World'') (JStr ''octocat'')) =
      [Head ''https://api.github.com/repos/octocat/Hello-World'']"
    by (simp add: verifyRepoExists_valid example_eval trim_def is_space_def)
  from all_settled_first_failure [OF validate_2011, of env_missing "JStr ''Hello-World''"
      "JStr ''octocat''" 0] aggregate_missing
  obtain outcome where
    "getPullRequests strict_parse 0 env_missing (JStr ''octocat'') (JStr ''Hello-World'')
       ''2011-01-01'' ''2011-12-31'' =
       Some (outcome, snd (verifyOwnerExists env_missing (JStr ''octocat''))
          @ snd (verifyRepoExists env_missing (JStr ''Hello-World'') (JStr ''octocat''))
          @ [Get ''https://api.github.com/repos/octocat/Hello-World/pulls''])"
    and "\<forall>r. fst (verifyOwnerExists env_missing (JStr ''octocat'')) = Inl r \<longrightarrow> outcome = Inl r"
    by blast
  then show ?thesis by (simp add: o r)
qed

lemma validate_feb_30:
  "validateDateStrings strict_parse ''2024-02-30'' ''2024-03-01'' =
     Inl (Error ''Invalid start date: 2024-02-30'')"
  by code_simp

text \<open>
  C7, as the code has it. A malformed or inverted date range is rejected before any
  request is issued. The owner and the repository name are validated inside their own
  checks, after the call has started all three operations: an invalid owner makes the
  owner check fail without a request of its own and the call fail with that error, an
  invalid repository name makes the repository check fail without a request of its own
  and the call fail with that error when the owner check succeeds; meanwhile the other
  operations issue their requests, the \<^verbatim>\<open>GET\<close> of the first page among them. (An
  identifier that cannot be written into a URL, a structure with an entry \<^verbatim>\<open>toString\<close>,
  makes the aggregation fail with the \<^verbatim>\<open>TypeError\<close> of the conversion before its first
  request.)
\<close>

theorem date_validation_before_requests:
  "(\<forall>err. validateDateStrings P s e = Inl err \<longrightarrow>
      getPullRequests P tz E owner repo s e = Some (Inl err, []))
   \<and> (validateDateStrings P s e = Inr () \<longrightarrow>
      (\<forall>aggregated reqs3. getAllPullRequests E repo owner = Some (aggregated, reqs3) \<longrightarrow>
         (convertible owner \<and> convertible repo \<longrightarrow> Get (pulls_url owner repo) \<in> set reqs3)
         \<and> (\<not> (convertible owner \<and> convertible repo) \<longrightarrow>
              aggregated = Inl not_primitive \<and> reqs3 = [])
         \<and> (\<not> nonEmptyString owner \<longrightarrow>
              (\<exists>err. validateStringNotEmpty owner = Inl err
                 \<and> getPullRequests P tz E owner repo s e =
                     Some (Inl err, snd (verifyRepoExists E repo owner) @ reqs3)))
         \<and> (\<not> nonEmptyString repo \<longrightarrow>
              (\<exists>err. validateStringNotEmpty repo = Inl err
                 \<and> (\<forall>b. fst (verifyOwnerExists E owner) = Inr b \<longrightarrow>
                      getPullRequests P tz E owner repo s e =
                        Some (Inl err, snd (verifyOwnerExists E owner) @ reqs3))))))"
proof (intro conjI impI allI)
  fix err assume "validateDateStrings P s e = Inl err"
  then show "getPullRequests P tz E owner repo s e = Some (Inl err, [])"
    by (rule getPullRequests_invalid_dates)
next
  fix aggregated reqs3
  assume "getAllPullRequests E repo owner = Some (aggregated, reqs3)"
    and "convertible owner \<and> convertible repo"
  then show "Get (pulls_url owner repo) \<in> set reqs3"
    using getAllPullRequests_first_request [of E repo owner aggregated reqs3] by auto
next
  fix aggregated reqs3
  assume "getAllPullRequests E repo owner = Some (aggregated, reqs3)"
    and "\<not> (convertible owner \<and> convertible repo)"
  then show "aggregated = Inl not_primitive" and "reqs3 = []"
    using getAllPullRequests_throws [of owner repo E] by auto
next
  fix aggregated reqs3
  assume v: "validateDateStrings P s e = Inr ()"
    and a: "getAllPullRequests E repo owner = Some (aggregated, reqs3)"
    and "\<not> nonEmptyString owner"
  then obtain err where err: "validateStringNotEmpty owner = Inl err"
    using invalid_cases by blast
  then show "\<exists>err. validateStringNotEmpty owner = Inl err
      \<and> getPullRequests P tz E owner repo s e =
          Some (Inl err, snd (verifyRepoExists E repo owner) @ reqs3)"
    using a by (simp add: getPullRequests_valid [OF v] verifyOwnerExists_invalid)
next
  fix aggregated reqs3
  assume v: "validateDateStrings P s e = Inr ()"
    and a: "getAllPullRequests E repo owner = Some (aggregated, reqs3)"
    and "\<not> nonEmptyString repo"
  then obtain err where err: "validateStringNotEmpty repo = Inl err"
    using invalid_cases by blast
  then show "\<exists>err. validateStringNotEmpty repo = Inl err
      \<and> (\<forall>b. fst (verifyOwnerExists E owner) = Inr b \<longrightarrow>
            getPullRequests P tz E owner repo s e =
              Some (Inl err, snd (verifyOwnerExists E owner) @ reqs3))"
    using a by (simp add: getPullRequests_valid [OF v] verifyRepoExists_invalid)
qed

theorem date_validation_before_requests_witness:
  "getPullRequests strict_parse 0 env_ok (JStr ''octocat'') (JStr ''Hello-World'')
     ''2024-02-30'' ''2024-03-01'' = Some (Inl (Error ''Invalid start date: 2024-02-30''), [])"
  using date_validation_before_requests [of strict_parse "''2024-02-30''" "''2024-03-01''"
      0 env_ok "JStr ''octocat''" "JStr ''Hello-World''"] validate_feb_30
  by simp

text \<open>
  C7, as the specification states it, fails for an empty owner: the call fails with the
  validator's error, but the repository check and the aggregation have issued their
  requests.
\<close>

theorem empty_owner_requests:
  "getPullRequests strict_parse 0 env_ok (JStr '''') (JStr ''Hello-World'')
     ''2011-01-01'' ''2011-12-31'' =
     Some (Inl (Error ''Expected a non-empty string but recieved an empty string''),
           [Head ''https://api.github.com/repos//Hello-World'',
            Get ''https://api.github.com/repos//Hello-World/pulls'',
            Get ''https://api.github.com/repositories/1296269/pulls?page=2''])"
  by code_simp

section \<open>Properties of the page aggregator\<close>













section \<open>Properties of the date-range filter and of the projector\<close>


lemma array_filter_kept:
  "array_filter f xs = Inr ys \<Longrightarrow> y \<in> set ys \<Longrightarrow> f y = Inr True"
proof (induction xs arbitrary: ys)
  case Nil
  then show ?case by simp
next
  case (Cons x xs)
  then show ?case by (auto split: sum.splits if_splits)
qed

lemma array_map_first_error:
  "x \<in> set xs \<Longrightarrow> f x = Inl e \<Longrightarrow> (\<And>y e'. y \<in> set xs \<Longrightarrow> f y = Inl e' \<Longrightarrow> e' = e) \<Longrightarrow>
   array_map f xs = Inl e"
proof (induction xs)
  case Nil
  then show ?case by simp
next
  case (Cons a xs)
  show ?case
  proof (cases "f a")
    case (Inl e')
    with Cons.prems(3) [of a e'] show ?thesis by simp
  next
    case (Inr b)
    with Cons.prems have "x \<in> set xs" by auto
    from Cons.IH [OF this Cons.prems(2)] Cons.prems(3) have "array_map f xs = Inl e" by auto
    with Inr show ?thesis by simp
  qed
qed

lemma array_map_error_source:
  "array_map f xs = Inl e \<Longrightarrow> \<exists>x \<in> set xs. f x = Inl e"
  by (induction xs) (auto split: sum.splits)

lemma array_map_total:
  "(\<forall>x \<in> set xs. f x = Inr (g x)) \<Longrightarrow> array_map f xs = Inr (map g xs)"
  by (induction xs) auto


lemma newDate_error: "newDate P v = Inl e \<longleftrightarrow> \<not> convertible v \<and> e = not_primitive"
  by (cases v) (auto simp: ToString_def)





lemma pull_in_range_True: "pull_in_range P start end p = Inr True \<Longrightarrow> is_record p"
  by (cases p)
    (auto simp: pull_in_range_def is_record_def isDateInRange_def split: sum.splits bool.splits)




text \<open>
  Outside these records: a timestamp that is a record with an entry \<^verbatim>\<open>toString\<close> makes
  \<^verbatim>\<open>new Date\<close>, and with it the filter, throw.
\<close>

lemma filter_toString_entry:
  "filterPullRequestsByDateRange strict_parse 0 [pr_odd] ''2011-01-01'' ''2011-12-31'' =
     Inl (TypeError ''Cannot convert object to primitive value'')"
  by code_simp

lemma formatDate_error:
  "formatDate P tz v = Inl e \<longleftrightarrow> \<not> convertible v \<and> e = not_primitive"
proof (cases "newDate P v")
  case (Inl e')
  then show ?thesis using newDate_error [of P v e'] by (auto simp: formatDate_def)
next
  case (Inr date)
  then show ?thesis
    using newDate_error [of P v not_primitive]
    by (cases date) (auto simp: formatDate_def Let_def)
qed

lemma format_entry_error:
  "format_entry P tz keys entry = Inl e \<longleftrightarrow>
     (entry = (''user'', JNull) \<and> ''user'' \<in> set keys \<and> e = null_read ''login'')
     \<or> (fst entry \<in> set keys \<and> fst entry \<in> set date_keys \<and> \<not> convertible (snd entry)
         \<and> e = not_primitive)"
proof (cases entry)
  case (Pair k v)
  have u: "''user'' \<notin> set date_keys" by (simp add: date_keys_def)
  show ?thesis
  proof (cases "k \<in> set keys")
    case False
    with Pair show ?thesis by (auto simp: format_entry_def)
  next
    case k: True
    show ?thesis
    proof (cases "k = ''user'' \<and> typeof v = ''object''")
      case True
      with Pair k u show ?thesis by (cases v) (auto simp: format_entry_def)
    next
      case False
      show ?thesis
      proof (cases "k \<in> set date_keys")
        case True
        with Pair k False show ?thesis
          using formatDate_error [of P tz v e]
          by (cases "formatDate P tz v") (auto simp: format_entry_def)
      next
        case nd: False
        with Pair k False show ?thesis by (cases v) (auto simp: format_entry_def)
      qed
    qed
  qed
qed

lemma format_entry_TypeError:
  "format_entry P tz keys entry = Inl e \<Longrightarrow> \<exists>msg. e = TypeError msg"
  by (auto simp: format_entry_error null_read_def not_primitive_def)

lemma array_map_error_exists:
  "x \<in> set xs \<Longrightarrow> f x = Inl e \<Longrightarrow> \<exists>e'. array_map f xs = Inl e'"
  by (induction xs) (auto split: sum.splits)

lemma format_entry_null_user:
  "format_entry P tz keysToKeep (''user'', JNull) = Inl (null_read ''login'')"
  by (simp add: format_entry_def keysToKeep_def)

lemma formatObjectByKey_error:
  "formatObjectByKey P tz obj keys = Inl e \<longleftrightarrow> array_map (format_entry P tz keys) obj = Inl e"
  by (simp add: formatObjectByKey_def split: sum.splits)

lemma format_item_record: "format_item P tz (JObj obj) = formatObjectByKey P tz obj keysToKeep"
  by (simp add: format_item_def)

lemma formatObjectByKey_TypeError:
  assumes "formatObjectByKey P tz obj keys = Inl e"
  shows "\<exists>msg. e = TypeError msg"
proof -
  from assms have "array_map (format_entry P tz keys) obj = Inl e"
    by (simp add: formatObjectByKey_error)
  from array_map_error_source [OF this] show ?thesis by (auto dest: format_entry_TypeError)
qed

lemma formatObjectByKey_null_user:
  assumes "(''user'', JNull) \<in> set obj"
  shows "\<exists>msg. formatObjectByKey P tz obj keysToKeep = Inl (TypeError msg)"
proof -
  from array_map_error_exists [of "(''user'', JNull)" obj "format_entry P tz keysToKeep",
      OF assms format_entry_null_user]
  obtain e' where e: "array_map (format_entry P tz keysToKeep) obj = Inl e'" by blast
  then have f: "formatObjectByKey P tz obj keysToKeep = Inl e'"
    by (simp add: formatObjectByKey_error)
  from formatObjectByKey_TypeError [OF this] f show ?thesis by auto
qed

lemma plain_created_error:
  assumes "plain_created (JObj obj)" and "y \<in> set obj"
    and "format_entry P tz keysToKeep y = Inl e"
  shows "e = null_read ''login''"
proof -
  from assms(1,2) have "fst y = ''created_at'' \<longrightarrow> convertible (snd y)"
    by (cases y) (auto simp: plain_created_def list_all_iff)
  with assms(3) show ?thesis
    by (auto simp: format_entry_error keysToKeep_def date_keys_def)
qed

lemma formatObjectByKey_null_user_plain:
  assumes "(''user'', JNull) \<in> set obj" and "plain_created (JObj obj)"
  shows "formatObjectByKey P tz obj keysToKeep = Inl (null_read ''login'')"
proof -
  from array_map_first_error [of "(''user'', JNull)" obj "format_entry P tz keysToKeep",
      OF assms(1) format_entry_null_user]
  have "array_map (format_entry P tz keysToKeep) obj = Inl (null_read ''login'')"
    using plain_created_error [OF assms(2)] by blast
  then show ?thesis by (simp add: formatObjectByKey_error)
qed

lemma format_item_TypeError:
  assumes "is_record item" and "format_item P tz item = Inl e"
  shows "\<exists>msg. e = TypeError msg"
proof -
  from assms(1) obtain obj where "item = JObj obj"
    by (cases item) (simp_all add: is_record_def)
  with assms(2) show ?thesis by (auto simp: format_item_record dest: formatObjectByKey_TypeError)
qed

lemma format_item_error:
  assumes "is_record item" and "plain_created item" and "format_item P tz item = Inl e"
  shows "e = null_read ''login''"
proof -
  from assms(1) obtain obj where item: "item = JObj obj"
    by (cases item) (simp_all add: is_record_def)
  with assms(3) have "array_map (format_entry P tz keysToKeep) obj = Inl e"
    by (simp add: format_item_record formatObjectByKey_error)
  from array_map_error_source [OF this] assms(2) item show ?thesis
    by (auto dest: plain_created_error)
qed

text \<open>
  C10. A record with a \<^verbatim>\<open>user\<close> entry whose value is \<^verbatim>\<open>null\<close> makes
  \<^verbatim>\<open>formatObjectByKey\<close> throw a \<^verbatim>\<open>TypeError\<close> and return no record; and when such a
  record survives the date filter of a call whose three operations have succeeded, the
  call fails with a \<^verbatim>\<open>TypeError\<close> and returns no record at all. The error is that of
  reading \<^verbatim>\<open>login\<close> from \<^verbatim>\<open>null\<close> whenever the \<^verbatim>\<open>created_at\<close> values of the records can be
  converted to a primitive value, as every string and \<^verbatim>\<open>null\<close> can; otherwise it may be
  the \<^verbatim>\<open>TypeError\<close> that \<^verbatim>\<open>new Date\<close> throws on such a value.
\<close>

theorem null_user_throws:
  "((''user'', JNull) \<in> set obj \<longrightarrow>
      (\<exists>msg. formatObjectByKey P tz obj keysToKeep = Inl (TypeError msg))
      \<and> (plain_created (JObj obj) \<longrightarrow>
           formatObjectByKey P tz obj keysToKeep = Inl (null_read ''login'')))
   \<and> (validateDateStrings P s e = Inr ()
       \<and> (\<exists>b. fst (verifyOwnerExists E owner) = Inr b)
       \<and> (\<exists>b. fst (verifyRepoExists E repo owner) = Inr b)
       \<and> getAllPullRequests E repo owner = Some (Inr pulls, reqs3)
       \<and> filterPullRequestsByDateRange P tz pulls s e = Inr filtered
       \<and> JObj obj \<in> set filtered \<and> (''user'', JNull) \<in> set obj \<longrightarrow>
       (\<exists>msg. getPullRequests P tz E owner repo s e =
          Some (Inl (TypeError msg),
                snd (verifyOwnerExists E owner) @ snd (verifyRepoExists E repo owner) @ reqs3))
       \<and> (list_all plain_created filtered \<longrightarrow>
            getPullRequests P tz E owner repo s e =
              Some (Inl (null_read ''login''),
                    snd (verifyOwnerExists E owner) @ snd (verifyRepoExists E repo owner)
                    @ reqs3)))"
proof (intro conjI impI)
  assume "(''user'', JNull) \<in> set obj"
  then show "\<exists>msg. formatObjectByKey P tz obj keysToKeep = Inl (TypeError msg)"
    by (rule formatObjectByKey_null_user)
next
  assume "(''user'', JNull) \<in> set obj" and "plain_created (JObj obj)"
  then show "formatObjectByKey P tz obj keysToKeep = Inl (null_read ''login'')"
    by (rule formatObjectByKey_null_user_plain)
next
  assume a: "validateDateStrings P s e = Inr ()
       \<and> (\<exists>b. fst (verifyOwnerExists E owner) = Inr b)
       \<and> (\<exists>b. fst (verifyRepoExists E repo owner) = Inr b)
       \<and> getAllPullRequests E repo owner = Some (Inr pulls, reqs3)
       \<and> filterPullRequestsByDateRange P tz pulls s e = Inr filtered
       \<and> JObj obj \<in> set filtered \<and> (''user'', JNull) \<in> set obj"
  then have v: "validateDateStrings P s e = Inr ()"
    and f: "filterPullRequestsByDateRange P tz pulls s e = Inr filtered"
    and m: "JObj obj \<in> set filtered" and u: "(''user'', JNull) \<in> set obj"
    by simp_all
  have rec: "is_record y" if "y \<in> set filtered" for y
    using array_filter_kept [OF f [unfolded filterPullRequestsByDateRange_def Let_def] that]
    by (rule pull_in_range_True)
  from formatObjectByKey_null_user [OF u, of P tz] obtain msg0 where
    "format_item P tz (JObj obj) = Inl (TypeError msg0)"
    by (auto simp: format_item_record)
  from array_map_error_exists [of "JObj obj" filtered "format_item P tz", OF m this]
  obtain e' where
    e': "array_map (format_item P tz) filtered = Inl e'" by blast
  from array_map_error_source [OF e'] obtain y where
    "y \<in> set filtered" "format_item P tz y = Inl e'" by blast
  with rec obtain msg where "e' = TypeError msg" using format_item_TypeError by blast
  with e' a show "\<exists>msg. getPullRequests P tz E owner repo s e =
          Some (Inl (TypeError msg),
                snd (verifyOwnerExists E owner) @ snd (verifyRepoExists E repo owner) @ reqs3)"
    by (auto simp: getPullRequests_valid [OF v] settle_def)
next
  assume a: "validateDateStrings P s e = Inr ()
       \<and> (\<exists>b. fst (verifyOwnerExists E owner) = Inr b)
       \<and> (\<exists>b. fst (verifyRepoExists E repo owner) = Inr b)
       \<and> getAllPullRequests E repo owner = Some (Inr pulls, reqs3)
       \<and> filterPullRequestsByDateRange P tz pulls s e = Inr filtered
       \<and> JObj obj \<in> set filtered \<and> (''user'', JNull) \<in> set obj"
    and pl: "list_all plain_created filtered"
  then have v: "validateDateStrings P s e = Inr ()"
    and f: "filterPullRequestsByDateRange P tz pulls s e = Inr filtered"
    and m: "JObj obj \<in> set filtered" and u: "(''user'', JNull) \<in> set obj"
    by simp_all
  have rec: "is_record y" if "y \<in> set filtered" for y
    using array_filter_kept [OF f [unfolded filterPullRequestsByDateRange_def Let_def] that]
    by (rule pull_in_range_True)
  from pl m have "plain_created (JObj obj)" by (simp add: list_all_iff)
  with u have "format_item P tz (JObj obj) = Inl (null_read ''login'')"
    by (simp add: format_item_record formatObjectByKey_null_user_plain)
  moreover have "e' = null_read ''login''"
    if "y \<in> set filtered" "format_item P tz y = Inl e'" for y e'
  proof -
    from that(1) pl have "plain_created y" by (simp add: list_all_iff)
    from format_item_error [OF rec [OF that(1)] this that(2)] show ?thesis .
  qed
  ultimately have "array_map (format_item P tz) filtered = Inl (null_read ''login'')"
    using array_map_first_error [of "JObj obj" filtered "format_item P tz", OF m] by blast
  with a show "getPullRequests P tz E owner repo s e =
         Some (Inl (null_read ''login''),
               snd (verifyOwnerExists E owner) @ snd (verifyRepoExists E repo owner) @ reqs3)"
    by (auto simp: getPullRequests_valid [OF v] settle_def)
qed

theorem null_user_throws_witness:
  "getPullRequests strict_parse 0 env_ghost (JStr ''octocat'') (JStr ''Hello-World'')
     ''2011-01-01'' ''2011-12-31'' =
   Some (Inl (TypeError ''Cannot read properties of null (reading 'login')''),
         [Head ''https://api.github.com/users/octocat'',
          Head ''https://api.github.com/repos/octocat/Hello-World'',
          Get ''https://api.github.com/repos/octocat/Hello-World/pulls''])"
proof -
  have o: "verifyOwnerExists env_ghost (JStr ''octocat'') =
      (Inr True, [Head ''https://api.github.com/users/octocat''])"
    by code_simp
  have r: "verifyRepoExists env_ghost (JStr ''Hello-World'') (JStr ''octocat'') =
      (Inr True, [Head ''https://api.github.com/repos/octocat/Hello-World''])"
    by code_simp
  have g: "getAllPullRequests env_ghost (JStr ''Hello-World'') (JStr ''octocat'') =
      Some (Inr [pr_2011, pr_ghost],
            [Get ''https://api.github.com/repos/octocat/Hello-World/pulls''])"
    by code_simp
  have f: "filterPullRequestsByDateRange strict_parse 0 [pr_2011, pr_ghost]
      ''2011-01-01'' ''2011-12-31'' = Inr [pr_2011, pr_ghost]"
    by code_simp
  have m: "JObj [(''id'', JNum 3), (''user'', JNull), (''title'', JStr ''Orphan''),
     (''state'', JStr ''closed''), (''created_at'', JStr ''2011-03-01T09:00:00Z'')]
     \<in> set [pr_2011, pr_ghost]"
    by (simp add: pr_ghost_def)
  have pl: "list_all plain_created [pr_2011, pr_ghost]"
    by (simp add: plain_created_def pr_2011_def pr_ghost_def)
  note t = null_user_throws [of "[(''id'', JNum 3), (''user'', JNull), (''title'', JStr ''Orphan''),
     (''state'', JStr ''closed''), (''created_at'', JStr ''2011-03-01T09:00:00Z'')]"
     strict_parse 0 "''2011-01-01''" "''2011-12-31''" env_ghost "JStr ''octocat''"
     "JStr ''Hello-World''" "[pr_2011, pr_ghost]"
     "[Get ''https://api.github.com/repos/octocat/Hello-World/pulls'']" "[pr_2011, pr_ghost]",
     THEN conjunct2, rule_format, THEN conjunct2, rule_format, OF _ pl]
  have "getPullRequests strict_parse 0 env_ghost (JStr ''octocat'') (JStr ''Hello-World'')
     ''2011-01-01'' ''2011-12-31'' =
     Some (Inl (null_read ''login''),
           snd (verifyOwnerExists env_ghost (JStr ''octocat''))
           @ snd (verifyRepoExists env_ghost (JStr ''Hello-World'') (JStr ''octocat''))
           @ [Get ''https://api.github.com/repos/octocat/Hello-World/pulls''])"
  proof (rule t, intro conjI)
    show "\<exists>b. fst (verifyOwnerExists env_ghost (JStr ''octocat'')) = Inr b"
      by (auto simp: o)
    show "\<exists>b. fst (verifyRepoExists env_ghost (JStr ''Hello-World'') (JStr ''octocat'')) = Inr b"
      by (auto simp: r)
    show "(''user'', JNull)
      \<in> set [(''id'', JNum 3), (''user'', JNull), (''title'', JStr ''Orphan''),
            (''state'', JStr ''closed''), (''created_at'', JStr ''2011-03-01T09:00:00Z'')]"
      by simp
  qed (rule validate_2011 g f m)+
  then show ?thesis by (simp add: o r null_read_def)
qed

section \<open>Properties of the calendar\<close>

lemma int_div_bounds:
  fixes x k :: int
  assumes "0 < k"
  shows "k * (x div k) \<le> x" and "x < k * (x div k) + k"
proof -
  have e: "x = k * (x div k) + x mod k" by simp
  have "0 \<le> x mod k" "x mod k < k" using assms by simp_all
  with e show "k * (x div k) \<le> x" and "x < k * (x div k) + k" by linarith+
qed

text \<open>A year has 365.2425 days on average; \<open>DayFromYear\<close> stays close to that line.\<close>

lemma DayFromYear_est:
  "146097 * y - 287811596 \<le> 400 * DayFromYear y"
  "400 * DayFromYear y \<le> 146097 * y - 287810501"
proof -
  define a b c where "a = (y - 1969) div 4" and "b = (y - 1901) div 100"
    and "c = (y - 1601) div 400"
  have a: "4 * a \<le> y - 1969" "y - 1969 < 4 * a + 4"
    unfolding a_def by (rule int_div_bounds, simp)+
  have b: "100 * b \<le> y - 1901" "y - 1901 < 100 * b + 100"
    unfolding b_def by (rule int_div_bounds, simp)+
  have c: "400 * c \<le> y - 1601" "y - 1601 < 400 * c + 400"
    unfolding c_def by (rule int_div_bounds, simp)+
  have d: "DayFromYear y = 365 * (y - 1970) + a - b + c"
    by (simp add: DayFromYear_def a_def b_def c_def)
  have a1: "100 * y - 197200 \<le> 400 * a" and a2: "400 * a \<le> 100 * y - 196900"
    using a by linarith+
  have b1: "4 * y - 8000 \<le> 400 * b" and b2: "400 * b \<le> 4 * y - 7604" using b by linarith+
  have c1: "y - 2000 \<le> 400 * c" and c2: "400 * c \<le> y - 1601" using c by linarith+
  have e: "400 * DayFromYear y = 146000 * y - 287620000 + 400 * a - 400 * b + 400 * c"
    unfolding d by (simp add: algebra_simps)
  from a1 b2 c1 show "146097 * y - 287811596 \<le> 400 * DayFromYear y"
    unfolding e by linarith
  from a2 b1 c2 show "400 * DayFromYear y \<le> 146097 * y - 287810501"
    unfolding e by linarith
qed

lemma div_succ:
  fixes x k :: int
  assumes "0 < k"
  shows "(x + 1) div k = x div k + (if (x + 1) mod k = 0 then 1 else 0)"
proof (cases "x mod k + 1 < k")
  case True
  have e: "x + 1 = k * (x div k) + (x mod k + 1)" by simp
  have r: "0 \<le> x mod k + 1" using assms by (simp add: add_nonneg_nonneg)
  have d: "(x + 1) div k = x div k" by (rule int_div_pos_eq [OF e r True])
  have m: "(x + 1) mod k = x mod k + 1" by (rule int_mod_pos_eq [OF e r True])
  have "0 \<le> x mod k" using assms by simp
  with d m show ?thesis by simp
next
  case False
  have "x mod k < k" using assms by simp
  with False have xm: "x mod k = k - 1" by linarith
  have "x + 1 = k * (x div k) + k" using mult_div_mod_eq [of k x] xm by linarith
  then have e: "x + 1 = k * (x div k + 1) + 0" by (simp add: algebra_simps)
  have d: "(x + 1) div k = x div k + 1" by (rule int_div_pos_eq [OF e _ assms]) simp
  have m: "(x + 1) mod k = 0" by (rule int_mod_pos_eq [OF e _ assms]) simp
  from d m show ?thesis by simp
qed

lemma mod_shift_4: "(y - 1968) mod 4 = y mod (4::int)"
proof -
  have "y - 1968 = y + 4 * (- 492)" by simp
  then show ?thesis by (simp only: mod_mult_self2)
qed

lemma mod_shift_100: "(y - 1900) mod 100 = y mod (100::int)"
proof -
  have "y - 1900 = y + 100 * (- 19)" by simp
  then show ?thesis by (simp only: mod_mult_self2)
qed

lemma mod_shift_400: "(y - 1600) mod 400 = y mod (400::int)"
proof -
  have "y - 1600 = y + 400 * (- 4)" by simp
  then show ?thesis by (simp only: mod_mult_self2)
qed

lemma mod_100_4: "y mod 100 = 0 \<Longrightarrow> y mod 4 = (0::int)"
proof -
  assume "y mod 100 = 0"
  then have "100 dvd y" by (simp add: mod_eq_0_iff_dvd)
  moreover have "(4::int) dvd 100" by simp
  ultimately have "4 dvd y" by (rule dvd_trans [rotated])
  then show ?thesis by (simp add: mod_eq_0_iff_dvd)
qed

lemma mod_400_100: "y mod 400 = 0 \<Longrightarrow> y mod 100 = (0::int)"
proof -
  assume "y mod 400 = 0"
  then have "400 dvd y" by (simp add: mod_eq_0_iff_dvd)
  moreover have "(100::int) dvd 400" by simp
  ultimately have "100 dvd y" by (rule dvd_trans [rotated])
  then show ?thesis by (simp add: mod_eq_0_iff_dvd)
qed
lemma DayFromYear_step:
  "DayFromYear (y + 1) = DayFromYear y + 365 + (if isLeap y then 1 else 0)"
proof -
  define a b c where "a = (y - 1969) div 4" and "b = (y - 1901) div 100"
    and "c = (y - 1601) div 400"
  define p4 p100 p400 where "p4 \<longleftrightarrow> y mod 4 = 0" and "p100 \<longleftrightarrow> y mod 100 = 0"
    and "p400 \<longleftrightarrow> y mod 400 = 0"
  define l4 l100 l400 :: int where "l4 = (if p4 then 1 else 0)"
    and "l100 = (if p100 then 1 else 0)" and "l400 = (if p400 then 1 else 0)"
  have a: "(y - 1968) div 4 = a + l4"
    using div_succ [of 4 "y - 1969"] by (simp add: mod_shift_4 a_def l4_def p4_def)
  have b: "(y - 1900) div 100 = b + l100"
    using div_succ [of 100 "y - 1901"] by (simp add: mod_shift_100 b_def l100_def p100_def)
  have c: "(y - 1600) div 400 = c + l400"
    using div_succ [of 400 "y - 1601"] by (simp add: mod_shift_400 c_def l400_def p400_def)
  have s: "DayFromYear (y + 1) = 365 * (y - 1969) + (y - 1968) div 4 - (y - 1900) div 100
             + (y - 1600) div 400"
    by (simp add: DayFromYear_def)
  have d: "DayFromYear y = 365 * (y - 1970) + a - b + c"
    by (simp add: DayFromYear_def a_def b_def c_def)
  have i1: "p100 \<longrightarrow> p4" unfolding p100_def p4_def by (rule impI) (rule mod_100_4)
  have i2: "p400 \<longrightarrow> p100" unfolding p400_def p100_def by (rule impI) (rule mod_400_100)
  have leap: "isLeap y \<longleftrightarrow> p4 \<and> (\<not> p100 \<or> p400)"
    unfolding isLeap_def p4_def p100_def p400_def ..
  have l: "(if isLeap y then 1 else 0) = l4 - l100 + l400"
    unfolding leap l4_def l100_def l400_def using i1 i2
    by (cases p4; cases p100; cases p400) simp_all
  show ?thesis unfolding s a b c d l by (simp add: algebra_simps)
qed

lemma DayFromYear_mono: "y \<le> y' \<Longrightarrow> DayFromYear y \<le> DayFromYear y'"
proof (induction "nat (y' - y)" arbitrary: y')
  case 0
  then show ?case by simp
next
  case (Suc n)
  then have n: "n = nat ((y' - 1) - y)" and le: "y \<le> y' - 1" by linarith+
  from Suc.hyps(1) [OF n le] DayFromYear_step [of "y' - 1"] show ?case
    by (simp split: if_splits)
qed

lemma DayFromYear_less: "DayFromYear y < DayFromYear (y + 1)"
  by (simp add: DayFromYear_step)

text \<open>
  \<open>YearFromDay d\<close> is the year that holds the day \<open>d\<close>, and the only one.
\<close>

lemma YearFromDay_bounds:
  "DayFromYear (YearFromDay d) \<le> d" "d < DayFromYear (YearFromDay d + 1)"
proof -
  define q where "q = (400 * d) div 146097"
  define y where "y = 1970 + q"
  define lo hi where "lo = DayFromYear (y - 1)" and "hi = DayFromYear (y + 2)"
  have q: "146097 * q \<le> 400 * d" "400 * d < 146097 * q + 146097"
    unfolding q_def by (rule int_div_bounds, simp)+
  have "400 * lo \<le> 146097 * (y - 1) - 287810501"
    unfolding lo_def by (rule DayFromYear_est)
  moreover have "146097 * (y - 1) = 146097 * q + 287664993" by (simp add: y_def)
  ultimately have "400 * lo \<le> 146097 * q - 145508" by linarith
  with q(1) have lo: "lo \<le> d" by linarith
  have "146097 * (y + 2) - 287811596 \<le> 400 * hi"
    unfolding hi_def by (rule DayFromYear_est)
  moreover have "146097 * (y + 2) = 146097 * q + 288103284" by (simp add: y_def)
  ultimately have "146097 * q + 291688 \<le> 400 * hi" by linarith
  with q(2) have hi: "d < hi" by linarith
  have def: "YearFromDay d =
      (if DayFromYear (y + 1) \<le> d then y + 1 else if d < DayFromYear y then y - 1 else y)"
    by (simp add: YearFromDay_def y_def q_def Let_def)
  have two: "y + 1 + 1 = y + 2" "y - 1 + 1 = y" by simp_all
  show "DayFromYear (YearFromDay d) \<le> d"
    using lo unfolding def lo_def by (simp split: if_splits)
  show "d < DayFromYear (YearFromDay d + 1)"
    using hi unfolding def hi_def by (simp add: two split: if_splits)
qed

lemma YearFromDay_unique:
  assumes "DayFromYear y \<le> d" and "d < DayFromYear (y + 1)"
  shows "YearFromDay d = y"
proof (rule ccontr)
  assume ne: "YearFromDay d \<noteq> y"
  note b = YearFromDay_bounds [of d]
  show False
  proof (cases "YearFromDay d < y")
    case True
    then have "DayFromYear (YearFromDay d + 1) \<le> DayFromYear y"
      by (intro DayFromYear_mono) simp
    with b(2) assms(1) show False by linarith
  next
    case False
    with ne have "DayFromYear (y + 1) \<le> DayFromYear (YearFromDay d)"
      by (intro DayFromYear_mono) simp
    with b(1) assms(2) show False by linarith
  qed
qed
lemma month_table:
  assumes "0 \<le> d" and "d < 365 + l" and "l = 0 \<or> l = 1"
  shows "0 \<le> MonthOfDay l d" "MonthOfDay l d \<le> 11"
    "monthStart l (MonthOfDay l d) \<le> d" "d < monthStart l (MonthOfDay l d + 1)"
  using assms unfolding MonthOfDay_def monthStart_def by (simp_all split: if_splits)

lemma month_cases:
  fixes m :: int
  assumes "0 \<le> m" and "m \<le> 11"
  obtains "m = 0" | "m = 1" | "m = 2" | "m = 3" | "m = 4" | "m = 5" | "m = 6" | "m = 7"
    | "m = 8" | "m = 9" | "m = 10" | "m = 11"
proof (cases "m \<le> 5")
  case True
  with assms have "m = 0 \<or> m = 1 \<or> m = 2 \<or> m = 3 \<or> m = 4 \<or> m = 5" by linarith
  with that show thesis by blast
next
  case False
  with assms have "m = 6 \<or> m = 7 \<or> m = 8 \<or> m = 9 \<or> m = 10 \<or> m = 11" by linarith
  with that show thesis by blast
qed

lemma month_unique:
  assumes "0 \<le> m" and "m \<le> 11" and "monthStart l m \<le> d" and "d < monthStart l (m + 1)"
    and "l = 0 \<or> l = 1"
  shows "MonthOfDay l d = m"
  using assms(1,2)
proof (cases rule: month_cases)
qed (use assms(3-5) in \<open>auto simp: MonthOfDay_def monthStart_def\<close>)

lemma monthStart_table:
  assumes "0 \<le> m" and "m \<le> 11" and "l = 0 \<or> l = 1"
  shows "0 \<le> monthStart l m \<and> monthStart l (m + 1) \<le> 365 + l
    \<and> monthStart l m < monthStart l (m + 1)"
  using assms(1,2)
proof (cases rule: month_cases)
qed (use assms(3) in \<open>auto simp: monthStart_def\<close>)

lemma monthStart_bounds:
  assumes "0 \<le> m" and "m \<le> 11" and "l = 0 \<or> l = 1"
  shows "0 \<le> monthStart l m" "monthStart l (m + 1) \<le> 365 + l"
    "monthStart l m < monthStart l (m + 1)"
  using monthStart_table [OF assms] by simp_all

lemma Day_of_day: "0 \<le> r \<Longrightarrow> r < msPerDay \<Longrightarrow> Day (d * msPerDay + r) = d"
  unfolding Day_def msPerDay_def by (rule int_div_pos_eq [where r = r]) simp_all

lemma DayWithinYear_bounds:
  "0 \<le> DayWithinYear t" "DayWithinYear t < 365 + InLeapYear t"
  using YearFromDay_bounds [of "Day t"] DayFromYear_step [of "YearFromTime t"]
  by (simp_all add: DayWithinYear_def InLeapYear_def YearFromTime_def split: if_splits)

lemma DaysInMonth_InLeapYear:
  "DaysInMonth (YearFromTime t) m =
     monthStart (InLeapYear t) m - monthStart (InLeapYear t) (m - 1)"
  by (simp add: DaysInMonth_def InLeapYear_def Let_def)

lemma InLeapYear_cases: "InLeapYear t = 0 \<or> InLeapYear t = 1"
  by (simp add: InLeapYear_def)

text \<open>The calendar fields of every time value name a day that exists, the day of the time value.\<close>

lemma fields_valid:
  "0 \<le> MonthFromTime t" "MonthFromTime t \<le> 11" "1 \<le> DateFromTime t"
  "DateFromTime t \<le> DaysInMonth (YearFromTime t) (MonthFromTime t + 1)"
  "MakeDay (YearFromTime t) (MonthFromTime t) (DateFromTime t) = Day t"
proof -
  note m = month_table [OF DayWithinYear_bounds InLeapYear_cases, of t]
  show "0 \<le> MonthFromTime t" "MonthFromTime t \<le> 11" using m by (simp_all add: MonthFromTime_def)
  show "1 \<le> DateFromTime t" using m(3) by (simp add: DateFromTime_def MonthFromTime_def)
  show "DateFromTime t \<le> DaysInMonth (YearFromTime t) (MonthFromTime t + 1)"
    using m(4) by (simp add: DateFromTime_def MonthFromTime_def DaysInMonth_InLeapYear)
  show "MakeDay (YearFromTime t) (MonthFromTime t) (DateFromTime t) = Day t"
    by (simp add: MakeDay_def DateFromTime_def DayWithinYear_def InLeapYear_def)
qed

text \<open>The calendar fields of a day that exists are those it was made from.\<close>

lemma fields_of_MakeDay:
  assumes m: "0 \<le> m" "m \<le> 11" and d: "1 \<le> d" "d \<le> DaysInMonth y (m + 1)"
    and r: "0 \<le> r" "r < msPerDay"
  defines "t \<equiv> MakeDate (MakeDay y m d) r"
  shows "YearFromTime t = y" "MonthFromTime t = m" "DateFromTime t = d"
proof -
  define l :: int where "l = (if isLeap y then 1 else 0)"
  have l: "l = 0 \<or> l = 1" by (simp add: l_def)
  note s = monthStart_bounds [OF m l]
  have dm: "d \<le> monthStart l (m + 1) - monthStart l m"
    using d(2) by (simp add: DaysInMonth_def l_def Let_def)
  have day: "Day t = MakeDay y m d"
    unfolding t_def MakeDate_def by (rule Day_of_day [OF r])
  have lo: "DayFromYear y \<le> MakeDay y m d"
    using s(1) d(1) by (simp add: MakeDay_def l_def)
  have hi: "MakeDay y m d < DayFromYear (y + 1)"
    using s(2) dm by (simp add: MakeDay_def DayFromYear_step l_def)
  show y: "YearFromTime t = y"
    unfolding YearFromTime_def day by (rule YearFromDay_unique [OF lo hi])
  have il: "InLeapYear t = l" by (simp add: InLeapYear_def y l_def)
  have dw: "DayWithinYear t = monthStart l m + d - 1"
    by (simp add: DayWithinYear_def y day MakeDay_def l_def)
  have "monthStart l m \<le> monthStart l m + d - 1" "monthStart l m + d - 1 < monthStart l (m + 1)"
    using d(1) dm by linarith+
  from month_unique [OF m this l] show mm: "MonthFromTime t = m"
    by (simp add: MonthFromTime_def il dw)
  show "DateFromTime t = d" by (simp add: DateFromTime_def mm il dw)
qed

section \<open>Properties of decimal numerals\<close>

lemma digit_char_table:
  "digit_char 0 = CHR ''0''" "digit_char 1 = CHR ''1''" "digit_char 2 = CHR ''2''"
  "digit_char 3 = CHR ''3''" "digit_char 4 = CHR ''4''" "digit_char 5 = CHR ''5''"
  "digit_char 6 = CHR ''6''" "digit_char 7 = CHR ''7''" "digit_char 8 = CHR ''8''"
  "digit_char 9 = CHR ''9''"
  by code_simp+

lemma digit_char_0: "digit_char 0 = CHR ''0''"
  by (rule digit_char_table)

lemma digit_char_Suc_0: "digit_char (Suc 0) = CHR ''1''"
  using digit_char_table(2) by simp

lemma digit_cases:
  assumes "is_digit c"
  obtains "c = CHR ''0''" | "c = CHR ''1''" | "c = CHR ''2''" | "c = CHR ''3''"
    | "c = CHR ''4''" | "c = CHR ''5''" | "c = CHR ''6''" | "c = CHR ''7''"
    | "c = CHR ''8''" | "c = CHR ''9''"
  using assms by (auto simp: is_digit_def)

lemma digit_val_range: "is_digit c \<Longrightarrow> 0 \<le> digit_val c \<and> digit_val c \<le> 9"
  by (erule digit_cases) (simp_all add: digit_val_def)

lemma digit_char_val: "is_digit c \<Longrightarrow> digit_char (nat (digit_val c)) = c"
  by (erule digit_cases) (simp_all add: digit_val_def digit_char_table digit_char_Suc_0)

lemma nat_digit_cases:
  fixes n :: nat
  assumes "n < 10"
  obtains "n = 0" | "n = 1" | "n = 2" | "n = 3" | "n = 4" | "n = 5" | "n = 6" | "n = 7"
    | "n = 8" | "n = 9"
proof (cases "n < 5")
  case True
  then have "n = 0 \<or> n = 1 \<or> n = 2 \<or> n = 3 \<or> n = 4" by linarith
  with that show thesis by blast
next
  case False
  with assms have "n = 5 \<or> n = 6 \<or> n = 7 \<or> n = 8 \<or> n = 9" by linarith
  with that show thesis by blast
qed

lemma digit_val_char: "n < 10 \<Longrightarrow> is_digit (digit_char n) \<and> digit_val (digit_char n) = int n"
  by (erule nat_digit_cases)
     (simp_all add: is_digit_def digit_val_def digit_char_table digit_char_Suc_0)

lemma show_nat_digit:
  assumes "r < 10"
  shows "show_nat (10 * q + r) = (if q = 0 then [] else show_nat q) @ [digit_char r]"
proof (cases "q = 0")
  case True
  with assms show ?thesis by (subst show_nat.simps) simp
next
  case False
  with assms show ?thesis by (subst show_nat.simps) simp
qed

lemma show_nat_small: "r < 10 \<Longrightarrow> show_nat r = [digit_char r]"
  by (subst show_nat.simps) simp

lemma pad2_digits:
  assumes "a < 10" and "b < 10"
  shows "padStart 2 (show_nat (10 * a + b)) = [digit_char a, digit_char b]"
proof -
  have e1: "show_nat (10 * a + b) = (if a = 0 then [] else show_nat a) @ [digit_char b]"
    by (rule show_nat_digit [OF assms(2)])
  have e2: "show_nat a = [digit_char a]" by (rule show_nat_small [OF assms(1)])
  show ?thesis unfolding padStart_def e1 e2
    by (cases "a = 0") (simp_all add: eval_nat_numeral digit_char_0)
qed

lemma pad4_digits:
  assumes "a < 10" and "b < 10" and "c < 10" and "d < 10"
  shows "padStart 4 (show_nat (10 * (10 * (10 * a + b) + c) + d)) =
         [digit_char a, digit_char b, digit_char c, digit_char d]"
proof -
  have e1: "show_nat (10 * (10 * (10 * a + b) + c) + d) =
      (if 10 * (10 * a + b) + c = 0 then [] else show_nat (10 * (10 * a + b) + c))
      @ [digit_char d]"
    by (rule show_nat_digit [OF assms(4)])
  have e2: "show_nat (10 * (10 * a + b) + c) =
      (if 10 * a + b = 0 then [] else show_nat (10 * a + b)) @ [digit_char c]"
    by (rule show_nat_digit [OF assms(3)])
  have e3: "show_nat (10 * a + b) = (if a = 0 then [] else show_nat a) @ [digit_char b]"
    by (rule show_nat_digit [OF assms(2)])
  have e4: "show_nat a = [digit_char a]" by (rule show_nat_small [OF assms(1)])
  show ?thesis unfolding padStart_def e1 e2 e3 e4
    by (cases "a = 0"; cases "b = 0"; cases "c = 0")
       (simp_all add: eval_nat_numeral digit_char_0)
qed

lemma two_digits:
  fixes n :: nat
  assumes "n < 100"
  obtains a b where "a < 10" "b < 10" "n = 10 * a + b"
proof
  show "n div 10 < 10" using assms by simp
  show "n mod 10 < 10" by simp
  show "n = 10 * (n div 10) + n mod 10" by simp
qed

lemma four_digits:
  fixes n :: nat
  assumes "n < 10000"
  obtains a b c d where "a < 10" "b < 10" "c < 10" "d < 10"
    "n = 10 * (10 * (10 * a + b) + c) + d"
proof -
  define q1 where "q1 = n div 10"
  define q2 where "q2 = q1 div 10"
  define q3 where "q3 = q2 div 10"
  have n: "n = 10 * q1 + n mod 10" by (simp add: q1_def)
  have q1: "q1 = 10 * q2 + q1 mod 10" by (simp add: q2_def)
  have q2: "q2 = 10 * q3 + q2 mod 10" by (simp add: q3_def)
  have "q1 < 1000" using assms n by linarith
  then have "q2 < 100" using q1 by linarith
  then have q3: "q3 < 10" using q2 by linarith
  have "n = 10 * (10 * (10 * q3 + q2 mod 10) + q1 mod 10) + n mod 10"
    using n q1 q2 by simp
  with q3 that [of q3 "q2 mod 10" "q1 mod 10" "n mod 10"] show thesis by simp
qed

lemma num_of_2: "num_of [a, b] = 10 * digit_val a + digit_val b"
  by (simp add: num_of_def)

lemma num_of_4:
  "num_of [a, b, c, d] = 10 * (10 * (10 * digit_val a + digit_val b) + digit_val c) + digit_val d"
  by (simp add: num_of_def)

text \<open>A padded numeral is a string of digits that reads as the number, and the other way round.\<close>

lemma pad2_num_of:
  assumes "is_digit a" and "is_digit b"
  shows "pad 2 (num_of [a, b]) = [a, b]"
proof -
  note ra = digit_val_range [OF assms(1)] and rb = digit_val_range [OF assms(2)]
  have "nat (num_of [a, b]) = 10 * nat (digit_val a) + nat (digit_val b)"
    using ra rb by (simp add: num_of_2 nat_add_distrib nat_mult_distrib)
  moreover have "0 \<le> num_of [a, b]" using ra rb by (simp add: num_of_2)
  moreover have "nat (digit_val a) < 10" "nat (digit_val b) < 10" using ra rb by linarith+
  ultimately show ?thesis
    using pad2_digits [of "nat (digit_val a)" "nat (digit_val b)"]
    by (simp add: pad_def show_int_def digit_char_val assms)
qed

lemma pad4_num_of:
  assumes "is_digit a" and "is_digit b" and "is_digit c" and "is_digit d"
  shows "pad 4 (num_of [a, b, c, d]) = [a, b, c, d]"
proof -
  note ra = digit_val_range [OF assms(1)] and rb = digit_val_range [OF assms(2)]
    and rc = digit_val_range [OF assms(3)] and rd = digit_val_range [OF assms(4)]
  have "nat (num_of [a, b, c, d]) =
      10 * (10 * (10 * nat (digit_val a) + nat (digit_val b)) + nat (digit_val c))
      + nat (digit_val d)"
    using ra rb rc rd by (simp add: num_of_4 nat_add_distrib nat_mult_distrib)
  moreover have "0 \<le> num_of [a, b, c, d]" using ra rb rc rd by (simp add: num_of_4)
  moreover have "nat (digit_val a) < 10" "nat (digit_val b) < 10" "nat (digit_val c) < 10"
    "nat (digit_val d) < 10"
    using ra rb rc rd by linarith+
  ultimately show ?thesis
    using pad4_digits [of "nat (digit_val a)" "nat (digit_val b)" "nat (digit_val c)"
        "nat (digit_val d)"]
    by (simp add: pad_def show_int_def digit_char_val assms)
qed

lemma pad2_shape:
  assumes "0 \<le> i" and "i < 100"
  obtains a b where "is_digit a" "is_digit b" "pad 2 i = [a, b]" "num_of [a, b] = i"
proof -
  from assms have "nat i < 100" by simp
  then obtain x y where x: "x < 10" and y: "y < 10" and n: "nat i = 10 * x + y"
    by (rule two_digits)
  have p: "pad 2 i = [digit_char x, digit_char y]"
    using assms(1) pad2_digits [OF x y] by (simp add: pad_def show_int_def n)
  have "num_of [digit_char x, digit_char y] = int (nat i)"
    using digit_val_char [OF x] digit_val_char [OF y] by (simp add: num_of_2 n)
  with assms(1) have "num_of [digit_char x, digit_char y] = i" by simp
  with p digit_val_char [OF x] digit_val_char [OF y] that show thesis by blast
qed

lemma pad4_shape:
  assumes "0 \<le> i" and "i < 10000"
  obtains a b c d where "is_digit a" "is_digit b" "is_digit c" "is_digit d"
    "pad 4 i = [a, b, c, d]" "num_of [a, b, c, d] = i"
proof -
  from assms have "nat i < 10000" by simp
  then obtain x y z w where x: "x < 10" and y: "y < 10" and z: "z < 10" and w: "w < 10"
    and n: "nat i = 10 * (10 * (10 * x + y) + z) + w"
    by (rule four_digits)
  have p: "pad 4 i = [digit_char x, digit_char y, digit_char z, digit_char w]"
    using assms(1) pad4_digits [OF x y z w] by (simp add: pad_def show_int_def n)
  have "num_of [digit_char x, digit_char y, digit_char z, digit_char w] = int (nat i)"
    using digit_val_char [OF x] digit_val_char [OF y] digit_val_char [OF z]
      digit_val_char [OF w]
    by (simp add: num_of_4 n)
  with assms(1)
  have "num_of [digit_char x, digit_char y, digit_char z, digit_char w] = i" by simp
  with p digit_val_char [OF x] digit_val_char [OF y] digit_val_char [OF z]
    digit_val_char [OF w] that
  show thesis by blast
qed

section \<open>Properties of the date validation\<close>

lemma date_regex_shape:
  assumes "date_regex s"
  obtains y1 y2 y3 y4 m1 m2 d1 d2 where
    "s = [y1, y2, y3, y4, CHR ''-'', m1, m2, CHR ''-'', d1, d2]"
    "is_digit y1" "is_digit y2" "is_digit y3" "is_digit y4"
    "is_digit m1" "is_digit m2" "is_digit d1" "is_digit d2"
proof -
  from assms have "length s = 10" by (simp add: date_regex_def)
  then obtain c0 c1 c2 c3 c4 c5 c6 c7 c8 c9 where s: "s = [c0, c1, c2, c3, c4, c5, c6, c7, c8, c9]"
    by (auto simp: eval_nat_numeral length_Suc_conv)
  with assms that show thesis by (simp add: date_regex_def)
qed

lemma date_regex_literal:
  "is_digit y1 \<Longrightarrow> is_digit y2 \<Longrightarrow> is_digit y3 \<Longrightarrow> is_digit y4 \<Longrightarrow> is_digit m1 \<Longrightarrow>
   is_digit m2 \<Longrightarrow> is_digit d1 \<Longrightarrow> is_digit d2 \<Longrightarrow>
   date_regex [y1, y2, y3, y4, CHR ''-'', m1, m2, CHR ''-'', d1, d2]"
  by (simp add: date_regex_def)

lemma fields_of_literal:
  "year_of [y1, y2, y3, y4, h1, m1, m2, h2, d1, d2] = num_of [y1, y2, y3, y4]"
  "month_of [y1, y2, y3, y4, h1, m1, m2, h2, d1, d2] = num_of [m1, m2]"
  "day_of [y1, y2, y3, y4, h1, m1, m2, h2, d1, d2] = num_of [d1, d2]"
  by (simp_all add: year_of_def month_of_def day_of_def)

lemma num_of_2_range: "is_digit a \<Longrightarrow> is_digit b \<Longrightarrow> 0 \<le> num_of [a, b] \<and> num_of [a, b] \<le> 99"
  using digit_val_range [of a] digit_val_range [of b] by (simp add: num_of_2)

lemma num_of_4_range:
  "is_digit a \<Longrightarrow> is_digit b \<Longrightarrow> is_digit c \<Longrightarrow> is_digit d \<Longrightarrow>
   0 \<le> num_of [a, b, c, d] \<and> num_of [a, b, c, d] \<le> 9999"
  using digit_val_range [of a] digit_val_range [of b] digit_val_range [of c]
    digit_val_range [of d]
  by (simp add: num_of_4)

lemma DaysInMonth_le_31:
  assumes "1 \<le> m" and "m \<le> 12"
  shows "DaysInMonth y m \<le> 31"
proof -
  from assms have "0 \<le> m - 1" "m - 1 \<le> 11" by simp_all
  then show ?thesis
  proof (cases rule: month_cases)
  qed (auto simp: DaysInMonth_def monthStart_def Let_def)
qed

lemma DayFromYear_range:
  assumes "0 \<le> y" and "y \<le> 9999"
  shows "- 719529 \<le> DayFromYear y" "DayFromYear y \<le> 2932898"
  using DayFromYear_est [of y] assms by linarith+

lemma toISOString_prefix:
  assumes "0 \<le> YearFromTime t" and "YearFromTime t \<le> 9999"
  shows "\<exists>rest. toISOString t =
     pad 4 (YearFromTime t) @ ''-'' @ pad 2 (MonthFromTime t + 1) @ ''-''
     @ pad 2 (DateFromTime t) @ rest"
  using assms by (simp add: toISOString_def Let_def)

lemma toISOString_sign:
  assumes "\<not> (0 \<le> YearFromTime t \<and> YearFromTime t \<le> 9999)"
  shows "\<exists>rest. toISOString t = CHR ''-'' # rest \<or> toISOString t = CHR ''+'' # rest"
  using assms by (auto simp: toISOString_def Let_def)

text \<open>A string that names a day of the calendar parses to midnight UTC of that day.\<close>

lemma calendar_date_parses:
  assumes "is_calendar_date s"
  shows "newDate_string P s = Some (MakeDate (day_number s) 0)"
proof -
  from assms have rx: "date_regex s" and m: "1 \<le> month_of s" "month_of s \<le> 12"
    and d: "1 \<le> day_of s" "day_of s \<le> DaysInMonth (year_of s) (month_of s)"
    by (simp_all add: is_calendar_date_def)
  from rx obtain y1 y2 y3 y4 m1 m2 d1 d2 where s: "s = [y1, y2, y3, y4, CHR ''-'', m1, m2, CHR ''-'', d1, d2]"
    and dg: "is_digit y1" "is_digit y2" "is_digit y3" "is_digit y4"
    by (rule date_regex_shape)
  have y: "0 \<le> year_of s" "year_of s \<le> 9999"
    using num_of_4_range [OF dg] by (simp_all add: s fields_of_literal)
  have p: "parse_iso_date s = Some (MakeDate (day_number s) 0)"
    using rx m d
    by (simp add: parse_iso_date_def Let_def day_number_def year_of_def month_of_def day_of_def)
  define l :: int where "l = (if isLeap (year_of s) then 1 else 0)"
  have l: "l = 0 \<or> l = 1" by (simp add: l_def)
  have m0: "0 \<le> month_of s - 1" "month_of s - 1 \<le> 11" using m by simp_all
  note ms = monthStart_bounds [OF m0 l]
  have d31: "day_of s \<le> 31" using d(2) DaysInMonth_le_31 [OF m, of "year_of s"] by linarith
  have dn: "day_number s = DayFromYear (year_of s) + monthStart l (month_of s - 1) + day_of s - 1"
    by (simp add: day_number_def MakeDay_def l_def)
  have "monthStart l (month_of s - 1) \<le> 366" using ms(2,3) l by auto
  with DayFromYear_range [OF y] ms(1) d(1) d31 dn
  have "- 719529 \<le> day_number s" "day_number s \<le> 2933295" by linarith+
  then have "TimeClip (MakeDate (day_number s) 0) = Some (MakeDate (day_number s) 0)"
    by (simp add: TimeClip_def MakeDate_def msPerDay_def)
  with p show ?thesis by (simp add: newDate_string_def Date_parse_def)
qed

lemma calendar_date_round_trips:
  assumes "is_calendar_date s"
  shows "startsWith (toISOString (MakeDate (day_number s) 0)) s"
proof -
  from assms have rx: "date_regex s" and m: "1 \<le> month_of s" "month_of s \<le> 12"
    and d: "1 \<le> day_of s" "day_of s \<le> DaysInMonth (year_of s) (month_of s)"
    by (simp_all add: is_calendar_date_def)
  from rx obtain y1 y2 y3 y4 m1 m2 d1 d2 where s: "s = [y1, y2, y3, y4, CHR ''-'', m1, m2, CHR ''-'', d1, d2]"
    and dy: "is_digit y1" "is_digit y2" "is_digit y3" "is_digit y4"
    and dm: "is_digit m1" "is_digit m2" and dd: "is_digit d1" "is_digit d2"
    by (rule date_regex_shape)
  define t where "t = MakeDate (day_number s) 0"
  have m0: "0 \<le> month_of s - 1" "month_of s - 1 \<le> 11" using m by simp_all
  have d': "day_of s \<le> DaysInMonth (year_of s) (month_of s - 1 + 1)" using d(2) by simp
  have r: "(0::int) \<le> 0" "(0::int) < msPerDay" by (simp_all add: msPerDay_def)
  note f = fields_of_MakeDay [OF m0 d(1) d' r, folded day_number_def t_def]
  have y: "0 \<le> YearFromTime t" "YearFromTime t \<le> 9999"
    using num_of_4_range [OF dy] by (simp_all add: f s fields_of_literal)
  from toISOString_prefix [OF y] obtain rest where
    "toISOString t = pad 4 (year_of s) @ ''-'' @ pad 2 (month_of s) @ ''-''
       @ pad 2 (day_of s) @ rest"
    by (auto simp: f)
  then have "toISOString t = s @ rest"
    by (simp add: s fields_of_literal pad4_num_of [OF dy] pad2_num_of [OF dm] pad2_num_of [OF dd])
  then show ?thesis by (simp add: startsWith_def t_def)
qed

text \<open>
  Whatever the time value, its ISO string starts with a string of the pattern only if
  that string names a day of the calendar.
\<close>

lemma round_trip_calendar_date:
  assumes rx: "date_regex s" and st: "startsWith (toISOString t) s"
  shows "is_calendar_date s"
proof -
  from rx obtain y1 y2 y3 y4 m1 m2 d1 d2 where s: "s = [y1, y2, y3, y4, CHR ''-'', m1, m2, CHR ''-'', d1, d2]"
    and dy: "is_digit y1" by (rule date_regex_shape)
  from st have tk: "take (length s) (toISOString t) = s" by (simp add: startsWith_def)
  show ?thesis
  proof (cases "0 \<le> YearFromTime t \<and> YearFromTime t \<le> 9999")
    case False
    from toISOString_sign [OF this] tk s have "y1 = CHR ''-'' \<or> y1 = CHR ''+''" by auto
    with dy show ?thesis by (auto simp: is_digit_def)
  next
    case True
    then have y: "0 \<le> YearFromTime t" "YearFromTime t \<le> 9999" by simp_all
    note f = fields_valid [of t]
    have m: "0 \<le> MonthFromTime t + 1" "MonthFromTime t + 1 < 100" using f(1,2) by linarith+
    have m12: "1 \<le> MonthFromTime t + 1" "MonthFromTime t + 1 \<le> 12" using f(1,2) by linarith+
    have d: "0 \<le> DateFromTime t" "DateFromTime t < 100"
      using f(3,4) DaysInMonth_le_31 [OF m12, of "YearFromTime t"] by linarith+
    from y(2) have y': "YearFromTime t < 10000" by simp
    from y(1) y' obtain a b c e where p4: "pad 4 (YearFromTime t) = [a, b, c, e]"
      and n4: "num_of [a, b, c, e] = YearFromTime t"
      by (rule pad4_shape)
    from m obtain g h where p2: "pad 2 (MonthFromTime t + 1) = [g, h]"
      and n2: "num_of [g, h] = MonthFromTime t + 1"
      by (rule pad2_shape)
    from d obtain i j where p2': "pad 2 (DateFromTime t) = [i, j]"
      and n2': "num_of [i, j] = DateFromTime t"
      by (rule pad2_shape)
    from toISOString_prefix [OF y] obtain rest where
      "toISOString t = [a, b, c, e] @ ''-'' @ [g, h] @ ''-'' @ [i, j] @ rest"
      by (auto simp: p4 p2 p2')
    with tk have e: "s = [a, b, c, e, CHR ''-'', g, h, CHR ''-'', i, j]"
      by (subst (asm) s) (simp add: s)
    have "year_of s = YearFromTime t" "month_of s = MonthFromTime t + 1"
      "day_of s = DateFromTime t"
      by (simp_all add: e fields_of_literal n4 n2 n2')
    with rx m12 f(3,4) show ?thesis by (simp add: is_calendar_date_def)
  qed
qed

lemma isValidDate_calendar: "isValidDate P s \<longleftrightarrow> is_calendar_date s"
proof
  assume v: "isValidDate P s"
  then have rx: "date_regex s" by (simp add: isValidDate_def split: if_splits)
  from v obtain t where "newDate_string P s = Some t" "startsWith (toISOString t) s"
    by (auto simp: isValidDate_def split: if_splits option.splits)
  with rx show "is_calendar_date s" by (auto intro: round_trip_calendar_date)
next
  assume c: "is_calendar_date s"
  then have "date_regex s" by (simp add: is_calendar_date_def)
  with calendar_date_parses [OF c, of P] calendar_date_round_trips [OF c]
  show "isValidDate P s" by (simp add: isValidDate_def)
qed

lemma MakeDate_midnight: "MakeDate d 0 = d * msPerDay"
  by (simp add: MakeDate_def)

lemma isValidDate_round_trips: "isValidDate P d \<longleftrightarrow> date_regex d \<and> round_trips P d"
  by (simp add: isValidDate_def round_trips_def split: option.splits)

lemma feb_30: "\<not> is_calendar_date ''2024-02-30''"
  by code_simp

lemma march_dates:
  "is_calendar_date ''2024-03-01''" "is_calendar_date ''2024-03-02''"
  "day_number ''2024-03-01'' = 19783" "day_number ''2024-03-02'' = 19784"
  by code_simp+

text \<open>
  C4. \<^verbatim>\<open>validateDateStrings\<close> fails with the invalid-date error of the start date, or else
  of the end date, when that string does not match the pattern or does not come back
  from \<^verbatim>\<open>new Date\<close> and \<^verbatim>\<open>toISOString\<close>; whatever the runtime makes of other strings, the
  strings that pass are those that name a day of the calendar, so \<^verbatim>\<open>2024-02-30\<close> is
  rejected. Two strings that pass parse to midnight UTC of their days, and the call fails
  with the range-order error exactly when the end day is before the start day;
  otherwise it succeeds.
\<close>

theorem validateDateStrings_outcomes:
  "validateDateStrings P startDate endDate =
     (if \<not> (date_regex startDate \<and> round_trips P startDate) then
        Inl (Error (''Invalid start date: '' @ startDate))
      else if \<not> (date_regex endDate \<and> round_trips P endDate) then
        Inl (Error (''Invalid end date: '' @ endDate))
      else if day_number endDate < day_number startDate then
        Inl (Error (''End date '' @ endDate @ '' cannot be before start date '' @ startDate))
      else Inr ())
   \<and> (\<forall>d. date_regex d \<and> round_trips P d \<longleftrightarrow> is_calendar_date d)
   \<and> (\<forall>d. is_calendar_date d \<longrightarrow> newDate P (JStr d) = Inr (Some (day_number d * msPerDay)))
   \<and> \<not> is_calendar_date ''2024-02-30''"
proof (intro conjI allI impI)
  show "validateDateStrings P startDate endDate =
     (if \<not> (date_regex startDate \<and> round_trips P startDate) then
        Inl (Error (''Invalid start date: '' @ startDate))
      else if \<not> (date_regex endDate \<and> round_trips P endDate) then
        Inl (Error (''Invalid end date: '' @ endDate))
      else if day_number endDate < day_number startDate then
        Inl (Error (''End date '' @ endDate @ '' cannot be before start date '' @ startDate))
      else Inr ())"
  proof (cases "isValidDate P startDate \<and> isValidDate P endDate")
    case False
    then show ?thesis
      by (auto simp: validateDateStrings_def isValidDate_round_trips)
  next
    case True
    then have c: "is_calendar_date startDate" "is_calendar_date endDate"
      by (simp_all add: isValidDate_calendar)
    note p = calendar_date_parses [OF c(1), of P] calendar_date_parses [OF c(2), of P]
    show ?thesis
      unfolding validateDateStrings_def Let_def p
      using True
      by (simp add: isValidDate_round_trips [symmetric] MakeDate_midnight msPerDay_def)
  qed
next
  fix d
  show "date_regex d \<and> round_trips P d \<longleftrightarrow> is_calendar_date d"
    by (simp add: isValidDate_round_trips [symmetric] isValidDate_calendar)
next
  fix d assume "is_calendar_date d"
  from calendar_date_parses [OF this, of P]
  show "newDate P (JStr d) = Inr (Some (day_number d * msPerDay))"
    by (simp add: MakeDate_midnight)
next
  show "\<not> is_calendar_date ''2024-02-30''" by (rule feb_30)
qed

theorem validateDateStrings_outcomes_witness:
  "validateDateStrings rolling_parse ''2024-02-30'' ''2024-03-01'' =
     Inl (Error ''Invalid start date: 2024-02-30'')
   \<and> validateDateStrings rolling_parse ''2024-03-02'' ''2024-03-01'' =
     Inl (Error ''End date 2024-03-01 cannot be before start date 2024-03-02'')
   \<and> validateDateStrings rolling_parse ''2024-03-01'' ''2024-03-02'' = Inr ()"
  using validateDateStrings_outcomes [of rolling_parse "''2024-02-30''" "''2024-03-01''"]
    validateDateStrings_outcomes [of rolling_parse "''2024-03-02''" "''2024-03-01''"]
    validateDateStrings_outcomes [of rolling_parse "''2024-03-01''" "''2024-03-02''"]
    march_dates
  by simp

section \<open>The date range in local time\<close>

lemma day_number_range:
  assumes "is_calendar_date s"
  shows "- 719529 \<le> day_number s" "day_number s \<le> 2933295"
proof -
  from assms have rx: "date_regex s" and m: "1 \<le> month_of s" "month_of s \<le> 12"
    and d: "1 \<le> day_of s" "day_of s \<le> DaysInMonth (year_of s) (month_of s)"
    by (simp_all add: is_calendar_date_def)
  from rx obtain y1 y2 y3 y4 m1 m2 d1 d2 where s: "s = [y1, y2, y3, y4, CHR ''-'', m1, m2, CHR ''-'', d1, d2]"
    and dg: "is_digit y1" "is_digit y2" "is_digit y3" "is_digit y4"
    by (rule date_regex_shape)
  have y: "0 \<le> year_of s" "year_of s \<le> 9999"
    using num_of_4_range [OF dg] by (simp_all add: s fields_of_literal)
  define l :: int where "l = (if isLeap (year_of s) then 1 else 0)"
  have l: "l = 0 \<or> l = 1" by (simp add: l_def)
  have m0: "0 \<le> month_of s - 1" "month_of s - 1 \<le> 11" using m by simp_all
  note ms = monthStart_bounds [OF m0 l]
  have d31: "day_of s \<le> 31" using d(2) DaysInMonth_le_31 [OF m, of "year_of s"] by linarith
  have dn: "day_number s = DayFromYear (year_of s) + monthStart l (month_of s - 1) + day_of s - 1"
    by (simp add: day_number_def MakeDay_def l_def)
  have "monthStart l (month_of s - 1) \<le> 366" using ms(2,3) l by auto
  with DayFromYear_range [OF y] ms(1) d(1) d31 dn
  show "- 719529 \<le> day_number s" "day_number s \<le> 2933295" by linarith+
qed

lemma Day_behind:
  assumes "- msPerDay \<le> tz" and "tz < 0"
  shows "Day (d * msPerDay + tz) = d - 1"
proof -
  have e: "d * msPerDay + tz = (d - 1) * msPerDay + (msPerDay + tz)"
    by (simp add: algebra_simps)
  have "Day ((d - 1) * msPerDay + (msPerDay + tz)) = d - 1"
    using assms by (intro Day_of_day) simp_all
  then show ?thesis by (simp only: e)
qed

text \<open>
  \<^verbatim>\<open>parseDate\<close> parses the date in UTC and sets the hours in local time. In a zone at or
  ahead of UTC the result is the start, or the last millisecond, of the local day of that
  date; in a zone behind UTC it is that of the day before.
\<close>

lemma parseDate_local_day:
  assumes c: "is_calendar_date s" and tz: "- msPerDay \<le> tz" "tz < msPerDay"
  defines "day \<equiv> day_number s + (if tz < 0 then - 1 else 0)"
  shows "parseDate P tz s False = Some (MakeDate day 0 - tz)"
    and "parseDate P tz s True = Some (MakeDate day 86399999 - tz)"
proof -
  note r = day_number_range [OF c]
  have d: "Day (MakeDate (day_number s) 0 + tz) = day"
  proof (cases "tz < 0")
    case True
    with tz(1) show ?thesis by (simp add: MakeDate_def Day_behind day_def)
  next
    case False
    with tz(2) show ?thesis by (simp add: MakeDate_def Day_of_day day_def)
  qed
  have b: "- 719530 \<le> day" "day \<le> 2933295" using r by (simp_all add: day_def)
  have clip: "TimeClip (MakeDate day x - tz) = Some (MakeDate day x - tz)"
    if "0 \<le> x" "x < msPerDay" for x
    using that b tz by (simp add: TimeClip_def MakeDate_def msPerDay_def)
  show "parseDate P tz s False = Some (MakeDate day 0 - tz)"
    unfolding parseDate_def Let_def calendar_date_parses [OF c]
    using clip [of 0] by (simp add: setHours_def d MakeTime_def msPerDay_def)
  show "parseDate P tz s True = Some (MakeDate day 86399999 - tz)"
    unfolding parseDate_def Let_def calendar_date_parses [OF c]
    using clip [of 86399999] by (simp add: setHours_def d MakeTime_def msPerDay_def)
qed

lemma march_10: "is_calendar_date ''2024-03-10''" "day_number ''2024-03-10'' = 19792"
  by code_simp+

lemma march_10_afternoon:
  "newDate P (JStr ''2024-03-10T15:00:00Z'') = Inr (Some 1710082800000)"
proof -
  have "parse_iso_date ''2024-03-10T15:00:00Z'' = None" by code_simp
  moreover have "parse_iso_datetime ''2024-03-10T15:00:00Z'' = Some 1710082800000"
    by code_simp
  ultimately show ?thesis by (simp add: newDate_string_def Date_parse_def TimeClip_def)
qed

text \<open>
  C1 at a runtime five hours behind UTC: a pull request created and updated on 10 March
  2024 at 15:00 UTC, 10:00 local time, is left out of the range from 2024-03-10 to
  2024-03-10, which there runs over the local 9 March. At a runtime in UTC it is kept.
\<close>

theorem filter_behind_utc:
  "filterPullRequestsByDateRange P (- 18000000) [pr_march] ''2024-03-10'' ''2024-03-10'' = Inr []
   \<and> filterPullRequestsByDateRange P 0 [pr_march] ''2024-03-10'' ''2024-03-10'' = Inr [pr_march]"
proof -
  have tz: "- msPerDay \<le> - 18000000" "- 18000000 < msPerDay" "- msPerDay \<le> 0" "0 < msPerDay"
    by (simp_all add: msPerDay_def)
  note w5 = parseDate_local_day [OF march_10(1) tz(1,2), of P]
  note w0 = parseDate_local_day [OF march_10(1) tz(3,4), of P]
  have r: "get_prop [(''id'', JNum 4), (''user'', JObj [(''login'', JStr ''octocat'')]),
       (''title'', JStr ''Spring cleaning''), (''state'', JStr ''open''),
       (''created_at'', JStr ''2024-03-10T15:00:00Z''),
       (''updated_at'', JStr ''2024-03-10T15:00:00Z''),
       (''closed_at'', JNull), (''merged_at'', JNull)] k =
     (if k = ''created_at'' \<or> k = ''updated_at'' then JStr ''2024-03-10T15:00:00Z''
      else if k = ''closed_at'' \<or> k = ''merged_at'' then JNull
      else if k = ''id'' then JNum 4
      else if k = ''user'' then JObj [(''login'', JStr ''octocat'')]
      else if k = ''title'' then JStr ''Spring cleaning''
      else if k = ''state'' then JStr ''open'' else JUndefined)" for k
    by (simp add: get_prop_def)
  show ?thesis
    unfolding filterPullRequestsByDateRange_def Let_def w5 w0
    by (simp add: pr_march_def pull_in_range_def isDateInRange_def r march_10_afternoon
        march_10(2) MakeDate_def msPerDay_def del: newDate.simps)
qed

text \<open>
  The records that the filter keeps, in every zone less than a day away from UTC: those
  with a truthy timestamp that parses to an instant of the window.
\<close>

lemma isDateInRange_window:
  assumes c: "is_calendar_date startDate" "is_calendar_date endDate"
    and tz: "- msPerDay \<le> tz" "tz < msPerDay"
  defines "shift \<equiv> (if tz < 0 then - 1 else 0)"
  shows "isDateInRange P (parseDate P tz startDate False) (parseDate P tz endDate True) v
       = Inr True \<longleftrightarrow>
     truthy v \<and> (\<exists>t. newDate P v = Inr (Some t)
        \<and> MakeDate (day_number startDate + shift) 0 - tz \<le> t
        \<and> t \<le> MakeDate (day_number endDate + shift) 86399999 - tz)"
proof (cases "newDate P v")
  case (Inl e)
  then show ?thesis by (simp add: isDateInRange_def)
next
  case (Inr date)
  then show ?thesis
    unfolding parseDate_local_day [OF c(1) tz] parseDate_local_day [OF c(2) tz] shift_def
    by (cases date) (simp_all add: isDateInRange_def)
qed

section \<open>Properties of the field projector\<close>

lemma format_entry_keep:
  assumes "(k, v) \<noteq> (''user'', JNull)" and "k = ''created_at'' \<longrightarrow> convertible v"
  shows "format_entry P tz keysToKeep (k, v) =
     Inr (if k \<in> set keysToKeep then Some (k, project_value P tz k v) else None)"
proof (cases "k = ''created_at''")
  case True
  with assms(2) have "convertible v" by simp
  then obtain d where "formatDate P tz v = Inr d"
    using formatDate_error [of P tz v] by (cases "formatDate P tz v") auto
  with True show ?thesis
    by (simp add: format_entry_def project_value_def keysToKeep_def date_keys_def)
next
  case False
  with assms(1) show ?thesis
    by (cases v) (auto simp: format_entry_def project_value_def keysToKeep_def date_keys_def)
qed

lemma kept_entries:
  "map the (filter (\<lambda>entry. entry \<noteq> None)
     (map (\<lambda>(k, v). if k \<in> K then Some (k, f k v) else None) obj)) =
   map (\<lambda>(k, v). (k, f k v)) (filter (\<lambda>(k, v). k \<in> K) obj)"
  by (induction obj) (auto split: if_splits)

lemma set_entry_fresh: "k \<notin> fst ` set obj \<Longrightarrow> set_entry k v obj = obj @ [(k, v)]"
  by (induction obj) auto

lemma fromEntries_from:
  "distinct (map fst (acc @ es)) \<Longrightarrow>
   foldl (\<lambda>obj (k, v). set_entry k v obj) acc es = acc @ es"
proof (induction es arbitrary: acc)
  case Nil
  then show ?case by simp
next
  case (Cons e es)
  obtain k v where e: "e = (k, v)" by (cases e)
  from Cons.prems have "k \<notin> fst ` set acc" by (auto simp: e)
  then have s: "set_entry k v acc = acc @ [(k, v)]" by (rule set_entry_fresh)
  from Cons.prems have "distinct (map fst ((acc @ [(k, v)]) @ es))" by (simp add: e)
  from Cons.IH [OF this] show ?case by (simp add: e s)
qed

lemma fromEntries_distinct: "distinct (map fst es) \<Longrightarrow> fromEntries es = es"
  using fromEntries_from [of "[]" es] by (simp add: fromEntries_def)

lemma project_record_keys:
  "map fst (project_record P tz obj) = filter (\<lambda>k. k \<in> set keysToKeep) (map fst obj)"
  by (induction obj) (auto simp: project_record_def)

text \<open>
  Without a null author, and with a creation timestamp that can be converted, the
  projection succeeds, entry by entry.
\<close>

lemma formatObjectByKey_project:
  assumes d: "distinct (map fst obj)" and u: "(''user'', JNull) \<notin> set obj"
    and c: "plain_created (JObj obj)"
  shows "formatObjectByKey P tz obj keysToKeep = Inr (project_record P tz obj)"
proof -
  have "\<forall>e \<in> set obj. format_entry P tz keysToKeep e =
      Inr ((\<lambda>(k, v). if k \<in> set keysToKeep then Some (k, project_value P tz k v) else None) e)"
  proof
    fix e assume e: "e \<in> set obj"
    obtain k v where kv: "e = (k, v)" by (cases e)
    with e u have 1: "(k, v) \<noteq> (''user'', JNull)" by auto
    from e kv c have 2: "k = ''created_at'' \<longrightarrow> convertible v"
      by (auto simp: plain_created_def list_all_iff)
    from format_entry_keep [OF 1 2, of P tz]
    show "format_entry P tz keysToKeep e =
      Inr ((\<lambda>(k, v). if k \<in> set keysToKeep then Some (k, project_value P tz k v) else None) e)"
      by (simp add: kv)
  qed
  from array_map_total [OF this]
  have m: "array_map (format_entry P tz keysToKeep) obj =
      Inr (map (\<lambda>(k, v). if k \<in> set keysToKeep then Some (k, project_value P tz k v) else None)
             obj)" .
  have "distinct (map fst (project_record P tz obj))"
    using d by (simp add: project_record_keys)
  then have fe: "fromEntries (project_record P tz obj) = project_record P tz obj"
    by (rule fromEntries_distinct)
  have k: "map the (filter (\<lambda>entry. entry \<noteq> None)
      (map (\<lambda>(k, v). if k \<in> set keysToKeep then Some (k, project_value P tz k v) else None)
         obj)) = project_record P tz obj"
    unfolding project_record_def by (rule kept_entries)
  show ?thesis
    unfolding formatObjectByKey_def m by (simp only: sum.case k fe)
qed

lemma show_nat_length: "10 \<le> n \<Longrightarrow> length (show_nat n) = Suc (length (show_nat (n div 10)))"
  by (subst show_nat.simps) simp

lemma show_nat_nonempty: "Suc 0 \<le> length (show_nat n)"
  by (subst show_nat.simps) simp

lemma show_int_four:
  assumes "1000 \<le> y"
  shows "show_int y = pad 4 y"
proof -
  define n where "n = nat y"
  have n: "1000 \<le> n" using assms by (simp add: n_def)
  then have a: "10 \<le> n" "10 \<le> n div 10" "10 \<le> n div 10 div 10" by simp_all
  have "length (show_nat n) = Suc (Suc (Suc (length (show_nat (n div 10 div 10 div 10)))))"
    by (simp only: show_nat_length [OF a(1)] show_nat_length [OF a(2)] show_nat_length [OF a(3)])
  with show_nat_nonempty [of "n div 10 div 10 div 10"]
  have "4 \<le> length (show_nat n)" by linarith
  then have "padStart 4 (show_nat n) = show_nat n" by (simp add: padStart_def)
  with assms show ?thesis by (simp add: pad_def show_int_def n_def)
qed

text \<open>
  A timestamp whose local year has four digits is formatted as the string of the pattern
  that names its local day.
\<close>

lemma formatDate_local_day:
  assumes t: "newDate P c = Inr (Some t)"
    and y: "1000 \<le> YearFromTime (t + tz)" "YearFromTime (t + tz) \<le> 9999"
  shows "\<exists>d. formatDate P tz c = Inr d \<and> is_calendar_date d \<and> day_number d = Day (t + tz)"
proof -
  define u where "u = t + tz"
  note f = fields_valid [of u]
  have m: "0 \<le> MonthFromTime u + 1" "MonthFromTime u + 1 < 100" using f(1,2) by linarith+
  have m12: "1 \<le> MonthFromTime u + 1" "MonthFromTime u + 1 \<le> 12" using f(1,2) by linarith+
  have d: "0 \<le> DateFromTime u" "DateFromTime u < 100"
    using f(3,4) DaysInMonth_le_31 [OF m12, of "YearFromTime u"] by linarith+
  have y0: "0 \<le> YearFromTime u" "YearFromTime u < 10000" using y by (simp_all add: u_def)
  from y0 obtain a b c' e where da: "is_digit a" "is_digit b" "is_digit c'" "is_digit e"
    and p4: "pad 4 (YearFromTime u) = [a, b, c', e]"
    and n4: "num_of [a, b, c', e] = YearFromTime u"
    by (rule pad4_shape)
  from m obtain g h where dg: "is_digit g" "is_digit h"
    and p2: "pad 2 (MonthFromTime u + 1) = [g, h]"
    and n2: "num_of [g, h] = MonthFromTime u + 1"
    by (rule pad2_shape)
  from d obtain i j where di: "is_digit i" "is_digit j"
    and p2': "pad 2 (DateFromTime u) = [i, j]"
    and n2': "num_of [i, j] = DateFromTime u"
    by (rule pad2_shape)
  define s where "s = [a, b, c', e, CHR ''-'', g, h, CHR ''-'', i, j]"
  have yy: "show_int (YearFromTime u) = [a, b, c', e]"
    using y(1) show_int_four [of "YearFromTime u"] p4 by (simp add: u_def)
  have mm: "padStart 2 (show_int (MonthFromTime u + 1)) = [g, h]"
    using p2 by (simp only: pad_def)
  have dd: "padStart 2 (show_int (DateFromTime u)) = [i, j]"
    using p2' by (simp only: pad_def)
  have "formatDate P tz c =
      Inr (show_int (YearFromTime u) @ ''-'' @ padStart 2 (show_int (MonthFromTime u + 1))
           @ ''-'' @ padStart 2 (show_int (DateFromTime u)))"
    by (simp add: formatDate_def t Let_def u_def)
  then have fd: "formatDate P tz c = Inr s"
    by (simp only: yy mm dd s_def) simp
  have rx: "date_regex s"
    unfolding s_def by (rule date_regex_literal [OF da dg di])
  have fl: "year_of s = YearFromTime u" "month_of s = MonthFromTime u + 1"
    "day_of s = DateFromTime u"
    by (simp_all add: s_def fields_of_literal n4 n2 n2')
  have "is_calendar_date s"
    using rx m12 f(3,4) by (simp add: is_calendar_date_def fl)
  moreover have "day_number s = Day (t + tz)"
    using f(5) by (simp add: day_number_def fl u_def)
  ultimately show ?thesis using fd by blast
qed

text \<open>
  C2, as the specification states it, fails for a record whose creation timestamp is a
  string that does not parse (the record is in the range by its update timestamp): the
  projection succeeds, and its \<^verbatim>\<open>created_at\<close> is \<^verbatim>\<open>NaN-NaN-NaN\<close>, which is no date of the
  pattern.
\<close>

theorem projection_unparsable_date:
  "filterPullRequestsByDateRange strict_parse 0 [pr_stale] ''2011-01-01'' ''2011-12-31'' =
     Inr [pr_stale]
   \<and> format_item strict_parse 0 pr_stale =
     Inr [(''id'', JNum 6), (''user'', JStr ''octocat''), (''title'', JStr ''Stale''),
          (''state'', JStr ''open''), (''created_at'', JStr ''NaN-NaN-NaN'')]
   \<and> \<not> date_regex ''NaN-NaN-NaN''"
  by code_simp

text \<open>
  C2, as the code has it. The entries of a record have distinct keys. For a record
  whose author is not \<^verbatim>\<open>null\<close> and whose creation timestamp can be converted to a
  primitive value, the projection succeeds and has exactly the whitelisted keys of the
  record, in their order, with no other key and no key filled in; each value is the
  projected value of the entry. An author that is a record is replaced by its
  \<^verbatim>\<open>login\<close> (\<^verbatim>\<open>undefined\<close> when it has none, and whatever the login is when it is no
  string), an author that is not an object is kept. A creation timestamp that gives a
  valid date with a local year of four digits is replaced by the string of the pattern
  that names its local day; one that gives an invalid date is replaced by
  \<^verbatim>\<open>NaN-NaN-NaN\<close>. The identifier, the title and the state are kept as they are.
\<close>

theorem projection:
  "(distinct (map fst obj) \<and> (''user'', JNull) \<notin> set obj \<and> plain_created (JObj obj) \<longrightarrow>
      formatObjectByKey P tz obj keysToKeep = Inr (project_record P tz obj))
   \<and> map fst (project_record P tz obj) = filter (\<lambda>k. k \<in> set keysToKeep) (map fst obj)
   \<and> (\<forall>u. project_value P tz ''user'' (JObj u) = get_prop u ''login'')
   \<and> (\<forall>v. typeof v \<noteq> ''object'' \<longrightarrow> project_value P tz ''user'' v = v)
   \<and> (\<forall>c t. newDate P c = Inr (Some t)
          \<and> 1000 \<le> YearFromTime (t + tz) \<and> YearFromTime (t + tz) \<le> 9999 \<longrightarrow>
          (\<exists>d. project_value P tz ''created_at'' c = JStr d \<and> is_calendar_date d
             \<and> day_number d = Day (t + tz)))
   \<and> (\<forall>c. newDate P c = Inr None \<longrightarrow>
          project_value P tz ''created_at'' c = JStr ''NaN-NaN-NaN'')
   \<and> (\<forall>k v. k \<in> {''id'', ''title'', ''state''} \<longrightarrow> project_value P tz k v = v)"
proof (intro conjI impI allI)
  assume "distinct (map fst obj) \<and> (''user'', JNull) \<notin> set obj \<and> plain_created (JObj obj)"
  then show "formatObjectByKey P tz obj keysToKeep = Inr (project_record P tz obj)"
    by (simp add: formatObjectByKey_project)
next
  show "map fst (project_record P tz obj) = filter (\<lambda>k. k \<in> set keysToKeep) (map fst obj)"
    by (rule project_record_keys)
next
  fix u show "project_value P tz ''user'' (JObj u) = get_prop u ''login''"
    by (simp add: project_value_def)
next
  fix v assume "typeof v \<noteq> ''object''"
  then show "project_value P tz ''user'' v = v"
    by (cases v) (simp_all add: project_value_def)
next
  fix c t
  assume "newDate P c = Inr (Some t)
          \<and> 1000 \<le> YearFromTime (t + tz) \<and> YearFromTime (t + tz) \<le> 9999"
  then obtain d where "formatDate P tz c = Inr d" "is_calendar_date d"
    "day_number d = Day (t + tz)"
    using formatDate_local_day [of P c t tz] by blast
  then show "\<exists>d. project_value P tz ''created_at'' c = JStr d \<and> is_calendar_date d
             \<and> day_number d = Day (t + tz)"
    by (simp add: project_value_def)
next
  fix c assume "newDate P c = Inr None"
  then show "project_value P tz ''created_at'' c = JStr ''NaN-NaN-NaN''"
    by (simp add: project_value_def formatDate_def)
next
  fix k v assume "k \<in> {''id'', ''title'', ''state''}"
  then show "project_value P tz k v = v" by (auto simp: project_value_def)
qed

theorem projection_witness:
  "formatObjectByKey strict_parse 0
     [(''id'', JNum 1), (''number'', JNum 1347),
      (''user'', JObj [(''login'', JStr ''octocat''), (''id'', JNum 583231)]),
      (''title'', JStr ''Amazing new feature''), (''state'', JStr ''open''),
      (''created_at'', JStr ''2011-01-26T19:01:12Z''),
      (''updated_at'', JStr ''2011-01-26T19:01:12Z''),
      (''closed_at'', JNull), (''merged_at'', JNull)] keysToKeep =
   Inr [(''id'', JNum 1), (''user'', JStr ''octocat''), (''title'', JStr ''Amazing new feature''),
        (''state'', JStr ''open''), (''created_at'', JStr ''2011-01-26'')]"
proof -
  have p: "project_record strict_parse 0
     [(''id'', JNum 1), (''number'', JNum 1347),
      (''user'', JObj [(''login'', JStr ''octocat''), (''id'', JNum 583231)]),
      (''title'', JStr ''Amazing new feature''), (''state'', JStr ''open''),
      (''created_at'', JStr ''2011-01-26T19:01:12Z''),
      (''updated_at'', JStr ''2011-01-26T19:01:12Z''),
      (''closed_at'', JNull), (''merged_at'', JNull)] =
     [(''id'', JNum 1), (''user'', JStr ''octocat''), (''title'', JStr ''Amazing new feature''),
      (''state'', JStr ''open''), (''created_at'', JStr ''2011-01-26'')]"
    by code_simp
  from projection [of "[(''id'', JNum 1), (''number'', JNum 1347),
      (''user'', JObj [(''login'', JStr ''octocat''), (''id'', JNum 583231)]),
      (''title'', JStr ''Amazing new feature''), (''state'', JStr ''open''),
      (''created_at'', JStr ''2011-01-26T19:01:12Z''),
      (''updated_at'', JStr ''2011-01-26T19:01:12Z''),
      (''closed_at'', JNull), (''merged_at'', JNull)]" strict_parse 0]
  show ?thesis by (simp add: p plain_created_def)
qed

end
